theory Spec2Isabelle
  imports Complex_Main "HOL-Library.Char_ord" "HOL-Library.List_Lexorder"
begin

section \<open>The program recommender of recommendation\_engine.py\<close>

text \<open>
  The repository is one file: the class \<open>ProgramRecommender\<close> (a list of program
  dictionaries and a \<open>TfidfVectorizer(stop_words='english')\<close>), its method
  \<open>generate_recommendations\<close>, and the command-line driver \<open>main\<close>.

  The method calls three library routines: \<open>TfidfVectorizer.fit_transform\<close> /
  \<open>transform\<close> and \<open>cosine_similarity\<close> of scikit-learn, and \<open>ndarray.argmax\<close> of
  NumPy. They are modelled below after their documented behaviour with the settings the
  source uses. Two idealisations are made and hold throughout:
  \<^item> weights are exact real numbers; the rounding of 64-bit floating point is not
    represented. Two similarities that are equal in exact arithmetic but come from rows
    that are not the same (proportional term counts, say) can differ in the last bit in
    the program, and \<open>argmax\<close> can then choose differently. What is stated of the
    method for every input therefore uses only what rounding cannot change: entries
    that are exactly zero, rows that are identical, and the order of the entries of a
    row of \<open>similarities\<close>;
  \<^item> text is ASCII: Python's \<open>\w\<close> and \<open>str.lower\<close> are modelled on letters, digits and
    the underscore only.
  The stop-word table of scikit-learn is not part of the repository; it is the field
  \<open>stop_words\<close> of the recommender, and every theorem holds for every table.
\<close>

subsection \<open>Data\<close>

text \<open>
  A program is a JSON object read by \<open>json.load\<close>. Only four keys are ever looked at;
  a key may be absent (\<open>None\<close>).
\<close>

record program =
  name :: "string option"
  category :: "string option"
  notes' :: "string option"
  venue :: "string option"

datatype error = KeyError string | ValueError string | IndexError

text \<open>The lines the method prints, kept as structured values.\<close>

datatype message =
    NoProgramsAvailable
  | MatchingPrograms "string list" "program list"
  | NoProgramsFound "string list"

record ProgramRecommender =
  programs :: "program list"
  stop_words :: "string list"

definition add_program :: "ProgramRecommender \<Rightarrow> program \<Rightarrow> ProgramRecommender" where
  "add_program self p = self\<lparr>programs := programs self @ [p]\<rparr>"

subsection \<open>The word analyser of the vectorizer\<close>

definition ascii_lowercase :: string where
  "ascii_lowercase = ''abcdefghijklmnopqrstuvwxyz''"

definition ascii_uppercase :: string where
  "ascii_uppercase = ''ABCDEFGHIJKLMNOPQRSTUVWXYZ''"

definition is_word_char :: "char \<Rightarrow> bool" where
  "is_word_char c \<longleftrightarrow> c \<in> set (ascii_lowercase @ ascii_uppercase @ ''0123456789_'')"

definition lower_char :: "char \<Rightarrow> char" where
  "lower_char c = (case map_of (zip ascii_uppercase ascii_lowercase) c of
                     None \<Rightarrow> c | Some l \<Rightarrow> l)"

definition flush :: "string \<Rightarrow> string list" where
  "flush cur = (if cur = [] then [] else [cur])"

text \<open>The maximal runs of word characters of a text, left to right.\<close>

fun word_runs :: "string \<Rightarrow> string \<Rightarrow> string list" where
  "word_runs cur [] = flush cur"
| "word_runs cur (c # cs) =
     (if is_word_char c then word_runs (cur @ [c]) cs
      else flush cur @ word_runs [] cs)"

text \<open>
  The default token pattern \<open>(?u)\b\w\w+\b\<close>: a match starts at the beginning of a run of
  word characters and, being greedy and closed by \<open>\b\<close>, takes the whole run; runs of one
  character do not match.
\<close>

definition tokenize :: "string \<Rightarrow> string list" where
  "tokenize doc = filter (\<lambda>w. 2 \<le> length w) (word_runs [] doc)"

text \<open>Lower-case, tokenize, then drop the stop words.\<close>

definition analyze :: "string list \<Rightarrow> string \<Rightarrow> string list" where
  "analyze sw doc = filter (\<lambda>w. w \<notin> set sw) (tokenize (map lower_char doc))"

subsection \<open>TF-IDF weighting\<close>

record TfidfModel =
  model_vocabulary :: "string list"
  model_idf :: "real list"

definition vocabulary :: "string list \<Rightarrow> string list \<Rightarrow> string list" where
  "vocabulary sw docs = sort (remdups (concat (map (analyze sw) docs)))"

definition document_frequency :: "string list list \<Rightarrow> string \<Rightarrow> nat" where
  "document_frequency toks t = length (filter (\<lambda>d. t \<in> set d) toks)"

text \<open>Smoothed inverse document frequency: \<open>ln ((1 + n) / (1 + df)) + 1\<close>.\<close>

definition idf :: "string list list \<Rightarrow> string \<Rightarrow> real" where
  "idf toks t = ln ((1 + real (length toks)) / (1 + real (document_frequency toks t))) + 1"

definition sumsq :: "real list \<Rightarrow> real" where
  "sumsq v = sum_list (map (\<lambda>x. x * x) v)"

text \<open>Row normalisation to Euclidean length one; a row of zeros is left as it is.\<close>

definition l2_normalize :: "real list \<Rightarrow> real list" where
  "l2_normalize v = (if sumsq v = 0 then v else map (\<lambda>x. x / sqrt (sumsq v)) v)"

text \<open>The term counts of a document, each multiplied by the weight of its term.\<close>

definition weighted_counts :: "string list \<Rightarrow> TfidfModel \<Rightarrow> string \<Rightarrow> real list" where
  "weighted_counts sw m doc =
     map2 (\<lambda>t w. real (count_list (analyze sw doc) t) * w) (model_vocabulary m) (model_idf m)"

definition tfidf_row :: "string list \<Rightarrow> TfidfModel \<Rightarrow> string \<Rightarrow> real list" where
  "tfidf_row sw m doc = l2_normalize (weighted_counts sw m doc)"

definition transform :: "string list \<Rightarrow> TfidfModel \<Rightarrow> string list \<Rightarrow> real list list" where
  "transform sw m docs = map (tfidf_row sw m) docs"

definition fit :: "string list \<Rightarrow> string list \<Rightarrow> error + TfidfModel" where
  "fit sw docs =
     (let vocab = vocabulary sw docs in
      if vocab = []
      then Inl (ValueError ''empty vocabulary; perhaps the documents only contain stop words'')
      else Inr \<lparr>model_vocabulary = vocab, model_idf = map (idf (map (analyze sw) docs)) vocab\<rparr>)"

definition fit_transform ::
  "string list \<Rightarrow> string list \<Rightarrow> error + (TfidfModel \<times> real list list)" where
  "fit_transform sw docs =
     (case fit sw docs of
        Inl e \<Rightarrow> Inl e
      | Inr m \<Rightarrow> Inr (m, transform sw m docs))"

subsection \<open>Cosine similarity and argmax\<close>

definition dot :: "real list \<Rightarrow> real list \<Rightarrow> real" where
  "dot x y = sum_list (map2 (\<lambda>a b. a * b) x y)"

text \<open>The squared Euclidean distance of two vectors; it is used in the proofs only.\<close>

definition dist2 :: "real list \<Rightarrow> real list \<Rightarrow> real" where
  "dist2 u v = sum_list (map2 (\<lambda>a b. (a - b) * (a - b)) u v)"

text \<open>Both arguments are normalised again, then every row meets every row.\<close>

definition cosine_similarity :: "real list list \<Rightarrow> real list list \<Rightarrow> real list list" where
  "cosine_similarity X Y =
     (let X_normalized = map l2_normalize X;
          Y_normalized = map l2_normalize Y
      in map (\<lambda>x. map (\<lambda>y. dot x y) Y_normalized) X_normalized)"

text \<open>
  The scan of \<open>argmax\<close>: \<open>bi\<close> is the index of the best value \<open>bv\<close> seen so far, \<open>i\<close> the
  index of the next element. Only a strictly larger value replaces the best one.
\<close>

fun argmax_scan :: "nat \<Rightarrow> real \<Rightarrow> nat \<Rightarrow> real list \<Rightarrow> nat" where
  "argmax_scan bi bv i [] = bi"
| "argmax_scan bi bv i (x # xs) =
     (if bv < x then argmax_scan i x (Suc i) xs else argmax_scan bi bv (Suc i) xs)"

definition argmax :: "real list \<Rightarrow> error + nat" where
  "argmax row =
     (case row of
        [] \<Rightarrow> Inl (ValueError ''attempt to get argmax of an empty sequence'')
      | x # xs \<Rightarrow> Inr (argmax_scan 0 x 1 xs))"

text \<open>Run a fallible step over a list, stopping at the first error.\<close>

fun traverse :: "('a \<Rightarrow> error + 'b) \<Rightarrow> 'a list \<Rightarrow> error + 'b list" where
  "traverse f [] = Inr []"
| "traverse f (x # xs) =
     (case f x of
        Inl e \<Rightarrow> Inl e
      | Inr y \<Rightarrow> (case traverse f xs of Inl e \<Rightarrow> Inl e | Inr ys \<Rightarrow> Inr (y # ys)))"

definition argmax_axis1 :: "real list list \<Rightarrow> error + nat list" where
  "argmax_axis1 M = traverse argmax M"

subsection \<open>Python list operations\<close>

text \<open>\<open>xs[:n]\<close>: a negative \<open>n\<close> counts from the end.\<close>

definition slice_to :: "'a list \<Rightarrow> int \<Rightarrow> 'a list" where
  "slice_to xs n = (if 0 \<le> n then take (nat n) xs else take (nat (int (length xs) + n)) xs)"

definition getitem :: "'a list \<Rightarrow> nat \<Rightarrow> error + 'a" where
  "getitem xs i = (if i < length xs then Inr (xs ! i) else Inl IndexError)"

subsection \<open>generate\_recommendations\<close>

text \<open>\<open>p.get(key, '')\<close>\<close>

definition get_or_empty :: "string option \<Rightarrow> string" where
  "get_or_empty v = (case v of None \<Rightarrow> [] | Some s \<Rightarrow> s)"

definition description :: "program \<Rightarrow> string" where
  "description p =
     get_or_empty (name p) @ '' '' @ get_or_empty (category p) @ '' '' @ get_or_empty (notes' p)"

text \<open>\<open>p.get('category') in user_categories\<close>: an absent category is in no list of strings.\<close>

definition category_in :: "string list \<Rightarrow> program \<Rightarrow> bool" where
  "category_in user_categories p =
     (case category p of None \<Rightarrow> False | Some c \<Rightarrow> c \<in> set user_categories)"

definition category_matches :: "ProgramRecommender \<Rightarrow> string list \<Rightarrow> program list" where
  "category_matches self user_categories = filter (category_in user_categories) (programs self)"

text \<open>Lines 66 to 73, for a fitted model and the matrix of the whole catalog.\<close>

definition similarities ::
  "ProgramRecommender \<Rightarrow> string list \<Rightarrow> TfidfModel \<Rightarrow> real list list \<Rightarrow> real list list" where
  "similarities self user_categories m tfidf_matrix =
     (let category_descriptions = map description (category_matches self user_categories);
          category_tfidf = transform (stop_words self) m category_descriptions
      in cosine_similarity category_tfidf tfidf_matrix)"

definition generate_recommendations ::
  "ProgramRecommender \<Rightarrow> string list \<Rightarrow> int \<Rightarrow> error + (message list \<times> program list)" where
  "generate_recommendations self user_categories top_n =
     (if programs self = [] then Inr ([NoProgramsAvailable], [])
      else
        let descriptions = map description (programs self) in
        case fit_transform (stop_words self) descriptions of
          Inl e \<Rightarrow> Inl e
        | Inr (m, tfidf_matrix) \<Rightarrow>
            let matches = category_matches self user_categories;
                out = [MatchingPrograms user_categories matches]
            in if matches = [] then Inr (out @ [NoProgramsFound user_categories], [])
               else
                 (case argmax_axis1 (similarities self user_categories m tfidf_matrix) of
                    Inl e \<Rightarrow> Inl e
                  | Inr similar_program_indices \<Rightarrow>
                      (case traverse (getitem (programs self))
                                     (slice_to similar_program_indices top_n) of
                         Inl e \<Rightarrow> Inl e
                       | Inr recommended_programs \<Rightarrow> Inr (out, recommended_programs))))"

text \<open>What the method returns or raises, without the lines it prints.\<close>

definition returned :: "error + (message list \<times> program list) \<Rightarrow> error + program list" where
  "returned r = (case r of Inl e \<Rightarrow> Inl e | Inr (out, recommended_programs) \<Rightarrow> Inr recommended_programs)"

text \<open>
  The values of the method's local variables, as functions of its inputs: the fitted
  model with \<open>tfidf_matrix\<close> (line 49), \<open>similarities\<close> (line 73) and
  \<open>similar_program_indices\<close> (line 76).
\<close>

definition fitted :: "ProgramRecommender \<Rightarrow> error + (TfidfModel \<times> real list list)" where
  "fitted self = fit_transform (stop_words self) (map description (programs self))"

definition similarity_rows :: "ProgramRecommender \<Rightarrow> string list \<Rightarrow> error + real list list" where
  "similarity_rows self user_categories =
     (case fitted self of
        Inl e \<Rightarrow> Inl e
      | Inr (m, tfidf_matrix) \<Rightarrow> Inr (similarities self user_categories m tfidf_matrix))"

definition similar_program_indices :: "ProgramRecommender \<Rightarrow> string list \<Rightarrow> error + nat list" where
  "similar_program_indices self user_categories =
     (case similarity_rows self user_categories of
        Inl e \<Rightarrow> Inl e
      | Inr S \<Rightarrow> argmax_axis1 S)"

text \<open>
  One entry of \<open>similarities\<close>: the cosine of the rows of two programs under a fitted
  model.
\<close>

definition cosine :: "string list \<Rightarrow> TfidfModel \<Rightarrow> program \<Rightarrow> program \<Rightarrow> real" where
  "cosine sw m p q =
     dot (l2_normalize (tfidf_row sw m (description p)))
         (l2_normalize (tfidf_row sw m (description q)))"

text \<open>The catalog positions of the candidates, in catalog order.\<close>

definition candidate_indices :: "ProgramRecommender \<Rightarrow> string list \<Rightarrow> nat list" where
  "candidate_indices self user_categories =
     filter (\<lambda>i. category_in user_categories (programs self ! i)) [0..<length (programs self)]"

subsection \<open>The output loop of main\<close>

text \<open>
  The line printed for one program. The f-string reads \<open>program['name']\<close>,
  \<open>program['category']\<close> and \<open>program['venue']\<close> in this order, each by subscription.
\<close>

definition subscript :: "string \<Rightarrow> string option \<Rightarrow> error + string" where
  "subscript key v = (case v of None \<Rightarrow> Inl (KeyError key) | Some s \<Rightarrow> Inr s)"

definition format_program :: "program \<Rightarrow> error + string" where
  "format_program p =
     (case subscript ''name'' (name p) of
        Inl e \<Rightarrow> Inl e
      | Inr n \<Rightarrow>
          (case subscript ''category'' (category p) of
             Inl e \<Rightarrow> Inl e
           | Inr c \<Rightarrow>
               (case subscript ''venue'' (venue p) of
                  Inl e \<Rightarrow> Inl e
                | Inr v \<Rightarrow>
                    Inr (''Program Name: '' @ n @ '', Category: '' @ c @ '', Venue: '' @ v))))"

text \<open>The loop: the lines printed so far, and the error that stopped it, if any.\<close>

fun print_programs :: "string list \<Rightarrow> program list \<Rightarrow> string list \<times> error option" where
  "print_programs out [] = (out, None)"
| "print_programs out (p # ps) =
     (case format_program p of
        Inl e \<Rightarrow> (out, Some e)
      | Inr line \<Rightarrow> print_programs (out @ [line]) ps)"

definition output_recommendations :: "program list \<Rightarrow> string list \<times> error option" where
  "output_recommendations recommended_programs =
     (if recommended_programs \<noteq> [] then print_programs [] recommended_programs
      else ([''No recommendations available.''], None))"

subsection \<open>Example data\<close>

text \<open>
  The catalog of Scenario A of the specification, a record whose text is made of stop
  words only, two records with the same words in another order, and three entries of
  the English stop-word table.
\<close>

definition english_sample :: "string list" where
  "english_sample = [''the'', ''of'', ''and'']"

definition yoga :: program where
  "yoga = \<lparr>name = Some ''Yoga'', category = Some ''fitness'',
            notes' = Some ''morning class'', venue = Some ''Gym A''\<rparr>"

definition pilates :: program where
  "pilates = \<lparr>name = Some ''Pilates'', category = Some ''fitness'',
               notes' = Some ''evening class'', venue = Some ''Gym B''\<rparr>"

definition chess_club :: program where
  "chess_club = \<lparr>name = Some ''Chess Club'', category = Some ''games'',
                  notes' = Some ''weekly meetup'', venue = Some ''Hall C''\<rparr>"

definition the_of :: program where
  "the_of = \<lparr>name = Some ''The'', category = Some ''of'', notes' = None,
              venue = Some ''Hall''\<rparr>"

definition class_yoga :: program where
  "class_yoga = \<lparr>name = Some ''Class Yoga'', category = Some ''fitness'', notes' = None,
                  venue = Some ''Gym A''\<rparr>"

definition yoga_class :: program where
  "yoga_class = \<lparr>name = Some ''Yoga class'', category = Some ''fitness'', notes' = None,
                  venue = Some ''Gym B''\<rparr>"

definition scenario_A :: ProgramRecommender where
  "scenario_A = \<lparr>programs = [yoga, pilates, chess_club], stop_words = english_sample\<rparr>"

definition no_programs :: ProgramRecommender where
  "no_programs = \<lparr>programs = [], stop_words = english_sample\<rparr>"

definition stop_words_only :: ProgramRecommender where
  "stop_words_only = \<lparr>programs = [the_of], stop_words = english_sample\<rparr>"

definition yoga_then_stop :: ProgramRecommender where
  "yoga_then_stop = \<lparr>programs = [yoga, the_of], stop_words = english_sample\<rparr>"

definition chess_then_yoga :: ProgramRecommender where
  "chess_then_yoga = \<lparr>programs = [chess_club, yoga], stop_words = english_sample\<rparr>"

definition same_words :: ProgramRecommender where
  "same_words = \<lparr>programs = [class_yoga, yoga_class], stop_words = english_sample\<rparr>"

section \<open>Library facts: traversal, argmax, slicing\<close>

lemma traverse_all_Inr:
  "(\<And>x. x \<in> set xs \<Longrightarrow> f x = Inr (g x)) \<Longrightarrow> traverse f xs = Inr (map g xs)"
  by (induction xs) auto

lemma traverse_Inr_length:
  "traverse f xs = Inr ys \<Longrightarrow> length ys = length xs"
  by (induction xs arbitrary: ys) (auto split: sum.splits)

lemma traverse_Inr_nth:
  "traverse f xs = Inr ys \<Longrightarrow> i < length xs \<Longrightarrow> f (xs ! i) = Inr (ys ! i)"
proof (induction xs arbitrary: ys i)
  case Nil
  then show ?case by simp
next
  case (Cons x xs)
  then show ?case by (cases i) (auto split: sum.splits)
qed

lemma argmax_scan_sound:
  assumes "length ys = i" "bi < i" "ys ! bi = bv"
    and "\<forall>j<i. ys ! j \<le> bv" "\<forall>j<bi. ys ! j < bv"
  shows "argmax_scan bi bv i xs < length (ys @ xs)
       \<and> (\<forall>j<length (ys @ xs). (ys @ xs) ! j \<le> (ys @ xs) ! argmax_scan bi bv i xs)
       \<and> (\<forall>j<argmax_scan bi bv i xs. (ys @ xs) ! j < (ys @ xs) ! argmax_scan bi bv i xs)"
  using assms
proof (induction xs arbitrary: bi bv i ys)
  case Nil
  then show ?case by simp
next
  case (Cons x xs)
  show ?case
  proof (cases "bv < x")
    case True
    have "argmax_scan i x (Suc i) xs < length ((ys @ [x]) @ xs)
       \<and> (\<forall>j<length ((ys @ [x]) @ xs). ((ys @ [x]) @ xs) ! j \<le> ((ys @ [x]) @ xs) ! argmax_scan i x (Suc i) xs)
       \<and> (\<forall>j<argmax_scan i x (Suc i) xs. ((ys @ [x]) @ xs) ! j < ((ys @ [x]) @ xs) ! argmax_scan i x (Suc i) xs)"
    proof (rule Cons.IH)
      show "length (ys @ [x]) = Suc i" using Cons.prems by simp
      show "i < Suc i" by simp
      show "(ys @ [x]) ! i = x" using Cons.prems by (simp add: nth_append)
      show "\<forall>j<Suc i. (ys @ [x]) ! j \<le> x"
        using Cons.prems True by (auto simp: nth_append less_Suc_eq intro: less_imp_le order.trans)
      show "\<forall>j<i. (ys @ [x]) ! j < x"
        using Cons.prems True by (auto simp: nth_append intro: le_less_trans)
    qed
    with True show ?thesis by simp
  next
    case False
    have "argmax_scan bi bv (Suc i) xs < length ((ys @ [x]) @ xs)
       \<and> (\<forall>j<length ((ys @ [x]) @ xs). ((ys @ [x]) @ xs) ! j \<le> ((ys @ [x]) @ xs) ! argmax_scan bi bv (Suc i) xs)
       \<and> (\<forall>j<argmax_scan bi bv (Suc i) xs. ((ys @ [x]) @ xs) ! j < ((ys @ [x]) @ xs) ! argmax_scan bi bv (Suc i) xs)"
    proof (rule Cons.IH)
      show "length (ys @ [x]) = Suc i" using Cons.prems by simp
      show "bi < Suc i" using Cons.prems by simp
      show "(ys @ [x]) ! bi = bv" using Cons.prems by (simp add: nth_append)
      show "\<forall>j<Suc i. (ys @ [x]) ! j \<le> bv"
        using Cons.prems False by (auto simp: nth_append less_Suc_eq)
      show "\<forall>j<bi. (ys @ [x]) ! j < bv"
        using Cons.prems by (auto simp: nth_append)
    qed
    with False show ?thesis by simp
  qed
qed

lemma argmax_nonempty:
  assumes "row \<noteq> []"
  obtains i where "argmax row = Inr i" "i < length row"
    "\<forall>j<length row. row ! j \<le> row ! i" "\<forall>j<i. row ! j < row ! i"
proof -
  from assms obtain x xs where row: "row = x # xs" by (cases row) auto
  have "argmax_scan 0 x 1 xs < length ([x] @ xs)
       \<and> (\<forall>j<length ([x] @ xs). ([x] @ xs) ! j \<le> ([x] @ xs) ! argmax_scan 0 x 1 xs)
       \<and> (\<forall>j<argmax_scan 0 x 1 xs. ([x] @ xs) ! j < ([x] @ xs) ! argmax_scan 0 x 1 xs)"
    by (rule argmax_scan_sound) auto
  then show ?thesis using that[of "argmax_scan 0 x 1 xs"] row
    by (simp add: argmax_def)
qed

text \<open>A position with the two properties of the first maximum is unique.\<close>
lemma first_max_unique:
  fixes row :: "real list"
  assumes "i < length row" "\<forall>j<length row. row ! j \<le> row ! i" "\<forall>j<i. row ! j < row ! i"
    and "k < length row" "\<forall>j<length row. row ! j \<le> row ! k" "\<forall>j<k. row ! j < row ! k"
  shows "i = k"
proof (rule ccontr)
  assume "i \<noteq> k"
  then consider "i < k" | "k < i" by linarith
  then show False
  proof cases
    case 1
    with assms have "row ! i < row ! k" "row ! k \<le> row ! i" by auto
    then show False by simp
  next
    case 2
    with assms have "row ! k < row ! i" "row ! i \<le> row ! k" by auto
    then show False by simp
  qed
qed

lemma slice_to_set: "set (slice_to xs n) \<subseteq> set xs"
  by (auto simp: slice_to_def dest: in_set_takeD)

lemma slice_to_length_le: "length (slice_to xs n) \<le> length xs"
  by (auto simp: slice_to_def)

lemma slice_to_nonneg: "0 \<le> n \<Longrightarrow> slice_to xs n = take (nat n) xs"
  by (simp add: slice_to_def)



lemma fit_cases:
  "fit sw docs =
     (if vocabulary sw docs = []
      then Inl (ValueError ''empty vocabulary; perhaps the documents only contain stop words'')
      else Inr \<lparr>model_vocabulary = vocabulary sw docs,
                model_idf = map (idf (map (analyze sw) docs)) (vocabulary sw docs)\<rparr>)"
  by (simp add: fit_def Let_def)

lemma fitted_empty_vocabulary:
  "vocabulary (stop_words self) (map description (programs self)) = [] \<Longrightarrow>
   fitted self = Inl (ValueError ''empty vocabulary; perhaps the documents only contain stop words'')"
  by (simp add: fitted_def fit_transform_def fit_cases)

lemma fitted_Inr:
  assumes "vocabulary (stop_words self) (map description (programs self)) \<noteq> []"
  obtains m X where "fitted self = Inr (m, X)"
    "X = transform (stop_words self) m (map description (programs self))"
    "length X = length (programs self)"
  using assms by (simp add: fitted_def fit_transform_def fit_cases transform_def)

lemma similarities_shape:
  "length (similarities self cats m X) = length (category_matches self cats)"
  "row \<in> set (similarities self cats m X) \<Longrightarrow> length row = length X"
  by (auto simp: similarities_def cosine_similarity_def transform_def Let_def)

lemma argmax_axis1_Inr:
  assumes "\<forall>row \<in> set M. row \<noteq> []"
  obtains idxs where "argmax_axis1 M = Inr idxs" "length idxs = length M"
    "\<forall>k<length M. argmax (M ! k) = Inr (idxs ! k)"
proof -
  have "\<exists>g. \<forall>row \<in> set M. argmax row = Inr (g row)"
  proof (intro exI ballI)
    fix row assume "row \<in> set M"
    with assms have "row \<noteq> []" by blast
    then show "argmax row = Inr (case argmax row of Inr i \<Rightarrow> i | Inl _ \<Rightarrow> 0)"
      by (cases row) (auto simp: argmax_def)
  qed
  then obtain g where g: "\<forall>row \<in> set M. argmax row = Inr (g row)" by blast
  then have "argmax_axis1 M = Inr (map g M)"
    unfolding argmax_axis1_def by (intro traverse_all_Inr) blast
  moreover have "\<forall>k<length M. argmax (M ! k) = Inr (map g M ! k)"
    using g by simp
  ultimately show ?thesis using that[of "map g M"] by simp
qed

lemma argmax_index_bound:
  assumes "argmax row = Inr i"
  shows "i < length row"
proof -
  from assms have "row \<noteq> []" by (auto simp: argmax_def)
  then obtain k where "argmax row = Inr k" "k < length row" by (rule argmax_nonempty)
  with assms show ?thesis by simp
qed

section \<open>The paths of generate\_recommendations\<close>

lemma similar_program_indices_Inr:
  assumes "programs self \<noteq> []"
    and "vocabulary (stop_words self) (map description (programs self)) \<noteq> []"
  obtains S idxs where
    "similarity_rows self cats = Inr S"
    "similar_program_indices self cats = Inr idxs"
    "length S = length (category_matches self cats)"
    "length idxs = length S"
    "\<forall>k<length S. length (S ! k) = length (programs self) \<and> argmax (S ! k) = Inr (idxs ! k)"
proof -
  from assms(2) obtain m X where fx: "fitted self = Inr (m, X)"
    and len: "length X = length (programs self)"
    by (rule fitted_Inr)
  define S where "S = similarities self cats m X"
  have rows: "\<forall>row \<in> set S. length row = length (programs self)"
    using similarities_shape(2)[of _ self cats m X] len by (simp add: S_def)
  with assms(1) have "\<forall>row \<in> set S. row \<noteq> []" by fastforce
  then obtain idxs where ix: "argmax_axis1 S = Inr idxs" "length idxs = length S"
    "\<forall>k<length S. argmax (S ! k) = Inr (idxs ! k)"
    by (rule argmax_axis1_Inr)
  have sr: "similarity_rows self cats = Inr S"
    by (simp add: similarity_rows_def fx S_def)
  have "similar_program_indices self cats = Inr idxs"
    by (simp add: similar_program_indices_def sr ix(1))
  moreover have "length S = length (category_matches self cats)"
    by (simp add: S_def similarities_shape(1))
  moreover have "\<forall>k<length S. length (S ! k) = length (programs self) \<and> argmax (S ! k) = Inr (idxs ! k)"
    using rows ix(3) by simp
  ultimately show ?thesis using that sr ix(2) by blast
qed

lemma similar_program_indices_bound:
  assumes "similar_program_indices self cats = Inr idxs" "i \<in> set idxs"
  shows "i < length (programs self)"
proof -
  from assms(1) obtain m X where fx: "fitted self = Inr (m, X)"
    and ax: "argmax_axis1 (similarities self cats m X) = Inr idxs"
    by (auto simp: similar_program_indices_def similarity_rows_def split: sum.splits)
  from fx have len: "length X = length (programs self)"
    by (auto simp: fitted_def fit_transform_def transform_def split: sum.splits)
  from assms(2) obtain k where k: "k < length idxs" "idxs ! k = i"
    by (auto simp: in_set_conv_nth)
  let ?S = "similarities self cats m X"
  from ax have "length idxs = length ?S"
    unfolding argmax_axis1_def by (rule traverse_Inr_length)
  with k have kS: "k < length ?S" by simp
  with ax have "argmax (?S ! k) = Inr (idxs ! k)"
    unfolding argmax_axis1_def by (rule traverse_Inr_nth)
  then have "idxs ! k < length (?S ! k)" by (rule argmax_index_bound)
  moreover have "length (?S ! k) = length X"
    using kS by (intro similarities_shape(2)[of _ self cats m X]) simp
  ultimately show ?thesis using k len by simp
qed

lemma generate_recommendations_cases:
  "generate_recommendations self cats n =
    (if programs self = [] then Inr ([NoProgramsAvailable], [])
     else if vocabulary (stop_words self) (map description (programs self)) = []
       then Inl (ValueError ''empty vocabulary; perhaps the documents only contain stop words'')
     else if category_matches self cats = []
       then Inr ([MatchingPrograms cats [], NoProgramsFound cats], [])
     else case similar_program_indices self cats of
            Inl e \<Rightarrow> Inl e
          | Inr idxs \<Rightarrow> Inr ([MatchingPrograms cats (category_matches self cats)],
                              map (\<lambda>i. programs self ! i) (slice_to idxs n)))"
proof (cases "programs self = []")
  case True
  then show ?thesis by (simp add: generate_recommendations_def)
next
  case ne: False
  show ?thesis
  proof (cases "vocabulary (stop_words self) (map description (programs self)) = []")
    case True
    then have "fitted self = Inl (ValueError ''empty vocabulary; perhaps the documents only contain stop words'')"
      by (rule fitted_empty_vocabulary)
    with ne True show ?thesis
      by (simp add: generate_recommendations_def fitted_def)
  next
    case voc: False
    then obtain m X where fx: "fitted self = Inr (m, X)"
      by (rule fitted_Inr)
    show ?thesis
    proof (cases "category_matches self cats = []")
      case True
      with ne voc fx show ?thesis
        by (simp add: generate_recommendations_def fitted_def)
    next
      case cm: False
      from ne voc obtain S idxs where
        sp: "similar_program_indices self cats = Inr idxs"
        by (rule similar_program_indices_Inr)
      then have ax: "argmax_axis1 (similarities self cats m X) = Inr idxs"
        using fx by (simp add: similar_program_indices_def similarity_rows_def)
      have "\<And>i. i \<in> set (slice_to idxs n) \<Longrightarrow> getitem (programs self) i = Inr (programs self ! i)"
        using similar_program_indices_bound[OF sp] slice_to_set[of idxs n]
        by (auto simp: getitem_def)
      then have tr: "traverse (getitem (programs self)) (slice_to idxs n)
                   = Inr (map (\<lambda>i. programs self ! i) (slice_to idxs n))"
        by (rule traverse_all_Inr)
      from ne voc cm fx ax tr sp show ?thesis
        by (simp add: generate_recommendations_def fitted_def Let_def)
    qed
  qed
qed

section \<open>Vectors: norms and dot products\<close>

lemma sumsq_nonneg: "0 \<le> sumsq v"
  unfolding sumsq_def by (rule sum_list_nonneg) auto

lemma sumsq_eq_0_iff: "sumsq v = 0 \<longleftrightarrow> (\<forall>x\<in>set v. x = 0)"
proof -
  have "sum_list (map (\<lambda>x. x * x) v) = 0 \<longleftrightarrow> (\<forall>y\<in>set (map (\<lambda>x. x * x) v). y = 0)"
    by (rule sum_list_nonneg_eq_0_iff) auto
  then show ?thesis by (auto simp: sumsq_def)
qed

lemma sumsq_scale: "sumsq (map (\<lambda>x. x / c) v) = sumsq v / (c * c)"
  unfolding sumsq_def by (induction v) (simp_all add: add_divide_distrib)

lemma sumsq_l2_normalize: "sumsq (l2_normalize v) = (if sumsq v = 0 then 0 else 1)"
proof (cases "sumsq v = 0")
  case True
  then show ?thesis by (simp add: l2_normalize_def)
next
  case False
  with sumsq_nonneg[of v] have pos: "0 < sumsq v" by simp
  have "sumsq (l2_normalize v) = sumsq v / (sqrt (sumsq v) * sqrt (sumsq v))"
    using False by (simp add: l2_normalize_def sumsq_scale)
  also have "\<dots> = 1" using pos by simp
  finally show ?thesis using False by simp
qed

lemma l2_normalize_idem: "l2_normalize (l2_normalize v) = l2_normalize v"
proof (cases "sumsq v = 0")
  case True
  then show ?thesis by (simp add: l2_normalize_def)
next
  case False
  then have "sumsq (l2_normalize v) = 1" by (simp add: sumsq_l2_normalize)
  then show ?thesis by (simp add: l2_normalize_def[of "l2_normalize v"])
qed

lemma length_l2_normalize: "length (l2_normalize v) = length v"
  by (simp add: l2_normalize_def)

lemma l2_normalize_zero: "sumsq v = 0 \<Longrightarrow> l2_normalize v = v"
  by (simp add: l2_normalize_def)

lemma dot_zero_left: "\<forall>x\<in>set u. x = 0 \<Longrightarrow> dot u v = 0"
  unfolding dot_def
proof (induction u arbitrary: v)
  case Nil
  then show ?case by simp
next
  case (Cons a u)
  then show ?case by (cases v) simp_all
qed

lemma dot_commute: "dot u v = dot v u"
  unfolding dot_def
proof (induction u arbitrary: v)
  case Nil
  then show ?case by simp
next
  case (Cons a u)
  then show ?case by (cases v) (simp_all add: mult.commute)
qed

lemma dot_zero_right: "\<forall>x\<in>set v. x = 0 \<Longrightarrow> dot u v = 0"
  using dot_zero_left[of v u] by (simp add: dot_commute)

lemma dot_self: "dot u u = sumsq u"
  unfolding dot_def sumsq_def by (induction u) simp_all

lemma dist2_expand:
  "length u = length v \<Longrightarrow> dist2 u v = sumsq u + sumsq v - 2 * dot u v"
  unfolding dist2_def sumsq_def dot_def
  by (induction u v rule: list_induct2) (simp_all add: algebra_simps)

lemma dist2_nonneg: "0 \<le> dist2 u v"
  unfolding dist2_def by (rule sum_list_nonneg) auto

lemma dist2_eq_0_iff:
  "length u = length v \<Longrightarrow> dist2 u v = 0 \<longleftrightarrow> u = v"
proof (induction u v rule: list_induct2)
  case Nil
  then show ?case by (simp add: dist2_def)
next
  case (Cons a u b v)
  have nn: "0 \<le> dist2 u v" by (rule dist2_nonneg)
  have "dist2 (a # u) (b # v) = (a - b) * (a - b) + dist2 u v"
    by (simp add: dist2_def)
  moreover have "0 \<le> (a - b) * (a - b)" by simp
  ultimately have "dist2 (a # u) (b # v) = 0 \<longleftrightarrow> (a - b) * (a - b) = 0 \<and> dist2 u v = 0"
    using nn by (simp add: add_nonneg_eq_0_iff)
  then show ?case using Cons.IH by simp
qed

lemma dot_unit_le_1:
  assumes "length u = length v" "sumsq u = 1" "sumsq v = 1"
  shows "dot u v \<le> 1"
  using dist2_expand[OF assms(1)] dist2_nonneg[of u v] assms(2,3) by simp

lemma dot_unit_eq_1_iff:
  assumes "length u = length v" "sumsq u = 1" "sumsq v = 1"
  shows "dot u v = 1 \<longleftrightarrow> u = v"
proof -
  have "dot u v = 1 \<longleftrightarrow> dist2 u v = 0"
    using dist2_expand[OF assms(1)] assms(2,3) by auto
  then show ?thesis using dist2_eq_0_iff[OF assms(1)] by simp
qed

section \<open>Rows of the TF-IDF matrix and their cosines\<close>

lemma tfidf_row_normalized: "l2_normalize (tfidf_row sw m d) = tfidf_row sw m d"
  by (simp add: tfidf_row_def l2_normalize_idem)

lemma length_tfidf_row:
  "length (tfidf_row sw m d) = min (length (model_vocabulary m)) (length (model_idf m))"
  by (simp add: tfidf_row_def weighted_counts_def length_l2_normalize)

lemma sumsq_tfidf_row: "sumsq (tfidf_row sw m d) = 0 \<or> sumsq (tfidf_row sw m d) = 1"
  by (simp add: tfidf_row_def sumsq_l2_normalize)

lemma cosine_dot:
  "cosine sw m p q = dot (tfidf_row sw m (description p)) (tfidf_row sw m (description q))"
  by (simp add: cosine_def tfidf_row_normalized)

lemma cosine_zero_left:
  "sumsq (tfidf_row sw m (description p)) = 0 \<Longrightarrow> cosine sw m p q = 0"
  by (simp add: cosine_dot sumsq_eq_0_iff dot_zero_left)

lemma cosine_zero_right:
  "sumsq (tfidf_row sw m (description q)) = 0 \<Longrightarrow> cosine sw m p q = 0"
  by (simp add: cosine_dot sumsq_eq_0_iff dot_zero_right)

lemma cosine_self:
  "sumsq (tfidf_row sw m (description p)) \<noteq> 0 \<Longrightarrow> cosine sw m p p = 1"
  using sumsq_tfidf_row[of sw m "description p"] by (simp add: cosine_dot dot_self)

lemma cosine_le_1: "cosine sw m p q \<le> 1"
proof -
  let ?u = "tfidf_row sw m (description p)" and ?v = "tfidf_row sw m (description q)"
  consider "sumsq ?u = 0" | "sumsq ?v = 0" | "sumsq ?u = 1" "sumsq ?v = 1"
    using sumsq_tfidf_row[of sw m "description p"] sumsq_tfidf_row[of sw m "description q"]
    by blast
  then show ?thesis
  proof cases
    case 1
    then show ?thesis by (simp add: cosine_zero_left)
  next
    case 2
    then show ?thesis by (simp add: cosine_zero_right)
  next
    case 3
    have "dot ?u ?v \<le> 1"
      by (rule dot_unit_le_1) (simp_all add: length_tfidf_row 3)
    then show ?thesis by (simp add: cosine_dot)
  qed
qed

lemma cosine_eq_1_iff:
  "cosine sw m p q = 1 \<longleftrightarrow>
     sumsq (tfidf_row sw m (description p)) \<noteq> 0
     \<and> tfidf_row sw m (description q) = tfidf_row sw m (description p)"
proof -
  let ?u = "tfidf_row sw m (description p)" and ?v = "tfidf_row sw m (description q)"
  consider "sumsq ?u = 0" | "sumsq ?u = 1" "sumsq ?v = 0" | "sumsq ?u = 1" "sumsq ?v = 1"
    using sumsq_tfidf_row[of sw m "description p"] sumsq_tfidf_row[of sw m "description q"]
    by blast
  then show ?thesis
  proof cases
    case 1
    then show ?thesis by (simp add: cosine_zero_left)
  next
    case 2
    then have "?v \<noteq> ?u" by auto
    with 2 show ?thesis by (simp add: cosine_zero_right)
  next
    case 3
    have "dot ?u ?v = 1 \<longleftrightarrow> ?u = ?v"
      by (rule dot_unit_eq_1_iff) (simp_all add: length_tfidf_row 3)
    with 3 show ?thesis by (auto simp: cosine_dot)
  qed
qed

lemma fitted_transform:
  "fitted self = Inr (m, X) \<Longrightarrow>
   X = map (\<lambda>q. tfidf_row (stop_words self) m (description q)) (programs self)"
  by (auto simp: fitted_def fit_transform_def transform_def comp_def split: sum.splits)

lemma similarity_rows_cosine:
  assumes "fitted self = Inr (m, X)"
  shows "similarity_rows self cats =
         Inr (map (\<lambda>c. map (\<lambda>q. cosine (stop_words self) m c q) (programs self))
                  (category_matches self cats))"
  using fitted_transform[OF assms] assms
  by (simp add: similarity_rows_def similarities_def cosine_similarity_def transform_def
      cosine_def comp_def Let_def)

section \<open>Entries of the rows of a fitted model\<close>

lemma fitted_model:
  assumes "fitted self = Inr (m, X)"
  shows "model_vocabulary m = vocabulary (stop_words self) (map description (programs self))"
    and "model_idf m = map (idf (map (analyze (stop_words self)) (map description (programs self))))
                           (model_vocabulary m)"
    and "model_vocabulary m \<noteq> []"
  using assms
  by (auto simp: fitted_def fit_transform_def fit_cases split: sum.splits if_splits)

lemma idf_pos: "0 < idf toks t"
proof -
  have "document_frequency toks t \<le> length toks"
    by (simp add: document_frequency_def)
  then have "1 \<le> (1 + real (length toks)) / (1 + real (document_frequency toks t))"
    by (simp add: le_divide_eq)
  then have "0 \<le> ln ((1 + real (length toks)) / (1 + real (document_frequency toks t)))"
    by (rule ln_ge_zero)
  then show ?thesis unfolding idf_def by linarith
qed

lemma weighted_counts_nth:
  assumes "fitted self = Inr (m, X)" "a < length (model_vocabulary m)"
  shows "weighted_counts (stop_words self) m d ! a =
         real (count_list (analyze (stop_words self) d) (model_vocabulary m ! a))
         * idf (map (analyze (stop_words self)) (map description (programs self)))
               (model_vocabulary m ! a)"
proof -
  have "weighted_counts (stop_words self) m d =
        map2 (\<lambda>t w. real (count_list (analyze (stop_words self) d) t) * w) (model_vocabulary m)
          (map (idf (map (analyze (stop_words self)) (map description (programs self))))
               (model_vocabulary m))"
    using fitted_model(2)[OF assms(1)] by (simp add: weighted_counts_def)
  then show ?thesis using assms(2) by simp
qed

lemma length_weighted_counts:
  assumes "fitted self = Inr (m, X)"
  shows "length (weighted_counts (stop_words self) m d) = length (model_vocabulary m)"
proof -
  have "length (model_idf m) = length (model_vocabulary m)"
    using arg_cong[OF fitted_model(2)[OF assms], of length] by simp
  then show ?thesis by (simp add: weighted_counts_def)
qed

lemma weighted_counts_nth_zero_iff:
  assumes "fitted self = Inr (m, X)" "a < length (model_vocabulary m)"
  shows "weighted_counts (stop_words self) m d ! a = 0 \<longleftrightarrow>
         model_vocabulary m ! a \<notin> set (analyze (stop_words self) d)"
  using idf_pos[of "map (analyze (stop_words self)) (map description (programs self))"
                   "model_vocabulary m ! a"]
  by (simp add: weighted_counts_nth[OF assms] count_list_0_iff)

lemma l2_normalize_nth_zero_iff:
  assumes "a < length v"
  shows "l2_normalize v ! a = 0 \<longleftrightarrow> v ! a = 0"
proof (cases "sumsq v = 0")
  case True
  then show ?thesis by (simp add: l2_normalize_def)
next
  case False
  with sumsq_nonneg[of v] have "0 < sqrt (sumsq v)" by simp
  then show ?thesis using assms False by (simp add: l2_normalize_def)
qed

lemma tfidf_row_nth_zero_iff:
  assumes "fitted self = Inr (m, X)" "a < length (model_vocabulary m)"
  shows "tfidf_row (stop_words self) m d ! a = 0 \<longleftrightarrow>
         model_vocabulary m ! a \<notin> set (analyze (stop_words self) d)"
  using assms
  by (simp add: tfidf_row_def l2_normalize_nth_zero_iff length_weighted_counts
      weighted_counts_nth_zero_iff)

lemma length_tfidf_row_fitted:
  "fitted self = Inr (m, X) \<Longrightarrow>
   length (tfidf_row (stop_words self) m d) = length (model_vocabulary m)"
  by (simp add: tfidf_row_def length_l2_normalize length_weighted_counts)

lemma tfidf_row_zero_iff:
  assumes "fitted self = Inr (m, X)"
  shows "sumsq (tfidf_row (stop_words self) m d) = 0 \<longleftrightarrow>
         set (analyze (stop_words self) d) \<inter> set (model_vocabulary m) = {}"
proof -
  let ?r = "tfidf_row (stop_words self) m d"
  have "sumsq ?r = 0 \<longleftrightarrow> (\<forall>a<length ?r. ?r ! a = 0)"
    by (simp add: sumsq_eq_0_iff all_set_conv_all_nth)
  also have "\<dots> \<longleftrightarrow> (\<forall>a<length (model_vocabulary m).
                 model_vocabulary m ! a \<notin> set (analyze (stop_words self) d))"
    using tfidf_row_nth_zero_iff[OF assms] by (simp add: length_tfidf_row_fitted[OF assms])
  also have "\<dots> \<longleftrightarrow> (\<forall>t\<in>set (model_vocabulary m). t \<notin> set (analyze (stop_words self) d))"
    by (simp add: all_set_conv_all_nth)
  finally show ?thesis by blast
qed

lemma tokens_in_vocabulary:
  "p \<in> set ps \<Longrightarrow> set (analyze sw (description p)) \<subseteq> set (vocabulary sw (map description ps))"
  by (auto simp: vocabulary_def)

lemma catalog_row_zero_iff:
  assumes "fitted self = Inr (m, X)" "p \<in> set (programs self)"
  shows "sumsq (tfidf_row (stop_words self) m (description p)) = 0 \<longleftrightarrow>
         analyze (stop_words self) (description p) = []"
proof -
  have "set (analyze (stop_words self) (description p)) \<subseteq> set (model_vocabulary m)"
    using tokens_in_vocabulary[OF assms(2)] fitted_model(1)[OF assms(1)] by simp
  then have "set (analyze (stop_words self) (description p)) \<inter> set (model_vocabulary m) = {}
         \<longleftrightarrow> analyze (stop_words self) (description p) = []"
    by (cases "analyze (stop_words self) (description p)") auto
  then show ?thesis unfolding tfidf_row_zero_iff[OF assms(1)] .
qed

lemma equal_rows_equal_tokens:
  assumes "fitted self = Inr (m, X)" "p \<in> set (programs self)" "q \<in> set (programs self)"
    and "tfidf_row (stop_words self) m (description p)
       = tfidf_row (stop_words self) m (description q)"
  shows "set (analyze (stop_words self) (description p))
       = set (analyze (stop_words self) (description q))"
proof -
  have sub: "set (analyze (stop_words self) (description r)) \<subseteq> set (model_vocabulary m)"
    if "r \<in> set (programs self)" for r
    using tokens_in_vocabulary[OF that] fitted_model(1)[OF assms(1)] by simp
  have "t \<in> set (analyze (stop_words self) (description p))
        \<longleftrightarrow> t \<in> set (analyze (stop_words self) (description q))"
    if "t \<in> set (model_vocabulary m)" for t
  proof -
    from that obtain a where a: "a < length (model_vocabulary m)" "model_vocabulary m ! a = t"
      by (auto simp: in_set_conv_nth)
    have "tfidf_row (stop_words self) m (description p) ! a = 0
          \<longleftrightarrow> tfidf_row (stop_words self) m (description q) ! a = 0"
      by (simp only: assms(4))
    then have "model_vocabulary m ! a \<notin> set (analyze (stop_words self) (description p))
          \<longleftrightarrow> model_vocabulary m ! a \<notin> set (analyze (stop_words self) (description q))"
      by (simp only: tfidf_row_nth_zero_iff[OF assms(1) a(1)])
    then show ?thesis by (simp only: a(2)) blast
  qed
  with sub[OF assms(2)] sub[OF assms(3)] show ?thesis by blast
qed

section \<open>Candidates and their catalog positions\<close>

lemma filter_as_positions:
  "filter P xs = map (\<lambda>i. xs ! i) (filter (\<lambda>i. P (xs ! i)) [0..<length xs])"
proof (induction xs rule: rev_induct)
  case Nil
  then show ?case by simp
next
  case (snoc x xs)
  have "filter (\<lambda>i. P ((xs @ [x]) ! i)) [0..<length xs] = filter (\<lambda>i. P (xs ! i)) [0..<length xs]"
    by (rule filter_cong) (simp_all add: nth_append)
  moreover have "map (\<lambda>i. (xs @ [x]) ! i) (filter (\<lambda>i. P (xs ! i)) [0..<length xs])
               = map (\<lambda>i. xs ! i) (filter (\<lambda>i. P (xs ! i)) [0..<length xs])"
    by (rule map_cong) (simp_all add: nth_append)
  ultimately show ?case using snoc.IH by simp
qed

lemma category_matches_positions:
  "category_matches self cats = map (\<lambda>i. programs self ! i) (candidate_indices self cats)"
  unfolding category_matches_def candidate_indices_def by (rule filter_as_positions)

lemma length_candidate_indices:
  "length (candidate_indices self cats) = length (category_matches self cats)"
  by (simp add: category_matches_positions)

lemma candidate_indices_bound:
  "k < length (candidate_indices self cats) \<Longrightarrow>
   candidate_indices self cats ! k < length (programs self)"
  using nth_mem[of k "candidate_indices self cats"] by (simp add: candidate_indices_def)

section \<open>The index chosen for a candidate\<close>

lemma best_index_spec:
  assumes "fitted self = Inr (m, X)"
    and "similar_program_indices self cats = Inr idxs"
    and "k < length (category_matches self cats)"
  shows "length idxs = length (category_matches self cats)"
    and "idxs ! k < length (programs self)"
    and "\<forall>j<length (programs self).
           cosine (stop_words self) m (category_matches self cats ! k) (programs self ! j)
         \<le> cosine (stop_words self) m (category_matches self cats ! k) (programs self ! (idxs ! k))"
    and "\<forall>j<idxs ! k.
           cosine (stop_words self) m (category_matches self cats ! k) (programs self ! j)
         < cosine (stop_words self) m (category_matches self cats ! k) (programs self ! (idxs ! k))"
proof -
  let ?c = "category_matches self cats ! k"
  let ?S = "map (\<lambda>c. map (\<lambda>q. cosine (stop_words self) m c q) (programs self))
                (category_matches self cats)"
  have S: "similarity_rows self cats = Inr ?S"
    by (rule similarity_rows_cosine[OF assms(1)])
  with assms(2) have ax: "traverse argmax ?S = Inr idxs"
    by (simp add: similar_program_indices_def argmax_axis1_def)
  then have "length idxs = length ?S" by (rule traverse_Inr_length)
  then show len: "length idxs = length (category_matches self cats)" by simp
  have kS: "k < length ?S" using assms(3) by simp
  have "argmax (?S ! k) = Inr (idxs ! k)"
    by (rule traverse_Inr_nth[OF ax kS])
  then have am: "argmax (map (\<lambda>q. cosine (stop_words self) m ?c q) (programs self)) = Inr (idxs ! k)"
    using assms(3) by simp
  let ?row = "map (\<lambda>q. cosine (stop_words self) m ?c q) (programs self)"
  from am have "?row \<noteq> []" by (auto simp: argmax_def)
  then obtain i where i: "argmax ?row = Inr i" "i < length ?row"
    "\<forall>j<length ?row. ?row ! j \<le> ?row ! i" "\<forall>j<i. ?row ! j < ?row ! i"
    by (rule argmax_nonempty)
  from i(1) am have eq: "i = idxs ! k" by simp
  from i(2) eq show "idxs ! k < length (programs self)" by simp
  from i(2,3) eq show "\<forall>j<length (programs self).
           cosine (stop_words self) m ?c (programs self ! j)
         \<le> cosine (stop_words self) m ?c (programs self ! (idxs ! k))"
    by simp
  from i(2,4) eq show "\<forall>j<idxs ! k.
           cosine (stop_words self) m ?c (programs self ! j)
         < cosine (stop_words self) m ?c (programs self ! (idxs ! k))"
    by auto
qed

lemma zero_row_best_index:
  assumes "fitted self = Inr (m, X)"
    and "similar_program_indices self cats = Inr idxs"
    and "k < length (category_matches self cats)"
    and "sumsq (tfidf_row (stop_words self) m (description (category_matches self cats ! k))) = 0"
  shows "idxs ! k = 0"
proof (rule ccontr)
  assume "idxs ! k \<noteq> 0"
  then have "0 < idxs ! k" by simp
  with best_index_spec(4)[OF assms(1-3)]
  have "cosine (stop_words self) m (category_matches self cats ! k) (programs self ! 0)
      < cosine (stop_words self) m (category_matches self cats ! k) (programs self ! (idxs ! k))"
    by blast
  then show False using assms(4) by (simp add: cosine_zero_left)
qed

lemma nonzero_row_best_index:
  assumes "fitted self = Inr (m, X)"
    and "similar_program_indices self cats = Inr idxs"
    and "k < length (category_matches self cats)"
    and "sumsq (tfidf_row (stop_words self) m (description (category_matches self cats ! k))) \<noteq> 0"
  shows "tfidf_row (stop_words self) m (description (programs self ! (idxs ! k)))
       = tfidf_row (stop_words self) m (description (category_matches self cats ! k))"
    and "\<forall>j<idxs ! k. tfidf_row (stop_words self) m (description (programs self ! j))
       \<noteq> tfidf_row (stop_words self) m (description (category_matches self cats ! k))"
proof -
  let ?c = "category_matches self cats ! k"
  let ?i = "candidate_indices self cats ! k"
  have ki: "k < length (candidate_indices self cats)"
    using assms(3) by (simp add: length_candidate_indices)
  have c: "?c = programs self ! ?i"
    using ki by (simp add: category_matches_positions)
  have ib: "?i < length (programs self)" by (rule candidate_indices_bound[OF ki])
  have self1: "cosine (stop_words self) m ?c (programs self ! ?i) = 1"
    using assms(4) c cosine_self by simp
  have "cosine (stop_words self) m ?c (programs self ! ?i)
      \<le> cosine (stop_words self) m ?c (programs self ! (idxs ! k))"
    using best_index_spec(3)[OF assms(1-3)] ib by blast
  with self1 cosine_le_1[of "stop_words self" m ?c "programs self ! (idxs ! k)"]
  have best1: "cosine (stop_words self) m ?c (programs self ! (idxs ! k)) = 1" by simp
  then show "tfidf_row (stop_words self) m (description (programs self ! (idxs ! k)))
       = tfidf_row (stop_words self) m (description ?c)"
    by (simp add: cosine_eq_1_iff)
  show "\<forall>j<idxs ! k. tfidf_row (stop_words self) m (description (programs self ! j))
       \<noteq> tfidf_row (stop_words self) m (description ?c)"
  proof (intro allI impI)
    fix j assume "j < idxs ! k"
    with best_index_spec(4)[OF assms(1-3)] best1
    have "cosine (stop_words self) m ?c (programs self ! j) < 1" by auto
    then have "cosine (stop_words self) m ?c (programs self ! j) \<noteq> 1" by simp
    then show "tfidf_row (stop_words self) m (description (programs self ! j))
       \<noteq> tfidf_row (stop_words self) m (description ?c)"
      using assms(4) by (simp add: cosine_eq_1_iff)
  qed
qed

text \<open>
  In exact arithmetic a row that is not zero has cosine 1 with itself and a smaller
  cosine with every different row. The next lemma rests on that; it is used only to
  evaluate the example catalogs below.
\<close>

lemma best_index_own_iff:
  assumes "fitted self = Inr (m, X)"
    and "similar_program_indices self cats = Inr idxs"
    and "k < length (candidate_indices self cats)"
  shows "idxs ! k = candidate_indices self cats ! k \<longleftrightarrow>
         (if sumsq (X ! (candidate_indices self cats ! k)) = 0
          then candidate_indices self cats ! k = 0
          else (\<forall>j<candidate_indices self cats ! k. X ! j \<noteq> X ! (candidate_indices self cats ! k)))"
proof -
  let ?i = "candidate_indices self cats ! k"
  let ?c = "category_matches self cats ! k"
  let ?row = "\<lambda>p. tfidf_row (stop_words self) m (description p)"
  have kc: "k < length (category_matches self cats)"
    using assms(3) by (simp add: length_candidate_indices)
  have c: "?c = programs self ! ?i"
    using assms(3) by (simp add: category_matches_positions)
  have ib: "?i < length (programs self)" by (rule candidate_indices_bound[OF assms(3)])
  have X: "X ! j = ?row (programs self ! j)" if "j < length (programs self)" for j
    using fitted_transform[OF assms(1)] that by simp
  show ?thesis
  proof (cases "sumsq (X ! ?i) = 0")
    case True
    then have "sumsq (?row ?c) = 0" using X[OF ib] c by simp
    then have "idxs ! k = 0" by (rule zero_row_best_index[OF assms(1,2) kc])
    with True show ?thesis by auto
  next
    case False
    then have nz: "sumsq (?row ?c) \<noteq> 0" using X[OF ib] c by simp
    have bb: "idxs ! k < length (programs self)"
      by (rule best_index_spec(2)[OF assms(1,2) kc])
    have same: "X ! (idxs ! k) = X ! ?i"
      using nonzero_row_best_index(1)[OF assms(1,2) kc nz] X[OF bb] X[OF ib] c by simp
    have before: "X ! j \<noteq> X ! ?i" if "j < idxs ! k" for j
    proof -
      from that bb have "j < length (programs self)" by simp
      then show ?thesis
        using nonzero_row_best_index(2)[OF assms(1,2) kc nz] that X[OF ib] c X[of j] by simp
    qed
    show ?thesis
    proof
      assume "idxs ! k = ?i"
      with before False show "if sumsq (X ! ?i) = 0 then ?i = 0 else (\<forall>j<?i. X ! j \<noteq> X ! ?i)"
        by simp
    next
      assume "if sumsq (X ! ?i) = 0 then ?i = 0 else (\<forall>j<?i. X ! j \<noteq> X ! ?i)"
      with False have earlier: "\<forall>j<?i. X ! j \<noteq> X ! ?i" by simp
      have "\<not> idxs ! k < ?i" using earlier same by blast
      moreover have "\<not> ?i < idxs ! k" using before by blast
      ultimately show "idxs ! k = ?i" by simp
    qed
  qed
qed

section \<open>The example catalogs, evaluated\<close>

lemma vocabulary_scenario_A:
  "vocabulary (stop_words scenario_A) (map description (programs scenario_A)) \<noteq> []"
  by code_simp

lemma vocabulary_stop_words_only:
  "vocabulary (stop_words stop_words_only) (map description (programs stop_words_only)) = []"
  by code_simp

lemma vocabulary_yoga_then_stop:
  "vocabulary (stop_words yoga_then_stop) (map description (programs yoga_then_stop)) \<noteq> []"
  by code_simp

lemma analyze_the_of: "analyze english_sample (description the_of) = []"
  by code_simp

lemma analyze_yoga:
  "analyze english_sample (description yoga) = [''yoga'', ''fitness'', ''morning'', ''class'']"
  by code_simp

lemma analyze_pilates:
  "analyze english_sample (description pilates) = [''pilates'', ''fitness'', ''evening'', ''class'']"
  by code_simp

lemma matches_scenario_A_fitness:
  "category_matches scenario_A [''fitness''] = [yoga, pilates]"
  by code_simp

lemma matches_scenario_A_music: "category_matches scenario_A [''music''] = []"
  by code_simp

lemma matches_yoga_then_stop: "category_matches yoga_then_stop [''of''] = [the_of]"
  by code_simp

lemma candidates_scenario_A: "candidate_indices scenario_A [''fitness''] = [0, 1]"
  by code_simp

lemma candidates_yoga_then_stop: "candidate_indices yoga_then_stop [''of''] = [1]"
  by code_simp

lemma singleton_from_nth: "length xs = 1 \<Longrightarrow> xs ! 0 = a \<Longrightarrow> xs = [a]"
  by (cases xs) auto

lemma pair_from_nth: "length xs = 2 \<Longrightarrow> xs ! 0 = a \<Longrightarrow> xs ! 1 = b \<Longrightarrow> xs = [a, b]"
  by (cases xs; cases "tl xs") auto

lemma similar_program_indices_exist:
  assumes "programs self \<noteq> []"
    and "vocabulary (stop_words self) (map description (programs self)) \<noteq> []"
  shows "\<exists>idxs. similar_program_indices self cats = Inr idxs
               \<and> length idxs = length (category_matches self cats)"
proof -
  obtain S idxs where
    "similarity_rows self cats = Inr S"
    "similar_program_indices self cats = Inr idxs"
    "length S = length (category_matches self cats)"
    "length idxs = length S"
    "\<forall>k<length S. length (S ! k) = length (programs self) \<and> argmax (S ! k) = Inr (idxs ! k)"
    by (rule similar_program_indices_Inr[OF assms])
  then show ?thesis by simp
qed

lemma programs_scenario_A: "programs scenario_A = [yoga, pilates, chess_club]"
  by (simp add: scenario_A_def)

lemma stop_words_scenario_A: "stop_words scenario_A = english_sample"
  by (simp add: scenario_A_def)

lemma programs_yoga_then_stop: "programs yoga_then_stop = [yoga, the_of]"
  by (simp add: yoga_then_stop_def)

lemma stop_words_yoga_then_stop: "stop_words yoga_then_stop = english_sample"
  by (simp add: yoga_then_stop_def)

lemma programs_stop_words_only: "programs stop_words_only = [the_of]"
  by (simp add: stop_words_only_def)

lemma catalog_row_zero_iff_at:
  assumes "fitted self = Inr (m, X)" "programs self = ps" "stop_words self = sw" "j < length ps"
  shows "X ! j = tfidf_row sw m (description (ps ! j))"
    and "sumsq (X ! j) = 0 \<longleftrightarrow> analyze sw (description (ps ! j)) = []"
proof -
  show X: "X ! j = tfidf_row sw m (description (ps ! j))"
    using fitted_transform[OF assms(1)] assms(2,3,4) by simp
  have "ps ! j \<in> set (programs self)" using assms(2,4) by simp
  from catalog_row_zero_iff[OF assms(1) this] X assms(3)
  show "sumsq (X ! j) = 0 \<longleftrightarrow> analyze sw (description (ps ! j)) = []" by simp
qed

lemma fitted_yoga_then_stop:
  obtains m X where "fitted yoga_then_stop = Inr (m, X)"
  using vocabulary_yoga_then_stop by (rule fitted_Inr)

lemma zero_row_the_of:
  assumes "fitted yoga_then_stop = Inr (m, X)"
  shows "sumsq (tfidf_row english_sample m (description the_of)) = 0"
proof -
  have "the_of \<in> set (programs yoga_then_stop)"
    by (simp only: programs_yoga_then_stop list.set insert_iff simp_thms)
  from catalog_row_zero_iff[OF assms this]
  show ?thesis by (simp only: stop_words_yoga_then_stop analyze_the_of simp_thms)
qed

lemma indices_yoga_then_stop:
  "similar_program_indices yoga_then_stop [''of''] = Inr [0]"
proof -
  obtain m X where fx: "fitted yoga_then_stop = Inr (m, X)" by (rule fitted_yoga_then_stop)
  have ne: "programs yoga_then_stop \<noteq> []" by (simp add: programs_yoga_then_stop)
  obtain idxs where sp: "similar_program_indices yoga_then_stop [''of''] = Inr idxs"
    and len: "length idxs = length (category_matches yoga_then_stop [''of''])"
    using similar_program_indices_exist[OF ne vocabulary_yoga_then_stop] by blast
  have l1: "length idxs = 1" using len by (simp only: matches_yoga_then_stop) simp
  have "idxs ! 0 = 0"
  proof (rule zero_row_best_index[OF fx sp])
    show "0 < length (category_matches yoga_then_stop [''of''])"
      by (simp only: matches_yoga_then_stop) simp
    show "sumsq (tfidf_row (stop_words yoga_then_stop) m
            (description (category_matches yoga_then_stop [''of''] ! 0))) = 0"
      using zero_row_the_of[OF fx]
      by (simp only: matches_yoga_then_stop stop_words_yoga_then_stop nth_Cons_0)
  qed
  with l1 have "idxs = [0]" by (rule singleton_from_nth)
  with sp show ?thesis by simp
qed

lemma rows_yoga_then_stop:
  "similarity_rows yoga_then_stop [''of''] = Inr [[0, 0]]"
proof -
  obtain m X where fx: "fitted yoga_then_stop = Inr (m, X)" by (rule fitted_yoga_then_stop)
  have z: "cosine english_sample m the_of q = 0" for q
    by (rule cosine_zero_left[OF zero_row_the_of[OF fx]])
  show ?thesis
    by (simp only: similarity_rows_cosine[OF fx] matches_yoga_then_stop
        programs_yoga_then_stop stop_words_yoga_then_stop list.map z)
qed

lemma indices_scenario_A:
  "similar_program_indices scenario_A [''fitness''] = Inr [0, 1]"
proof -
  obtain m X where fx: "fitted scenario_A = Inr (m, X)"
    using vocabulary_scenario_A by (rule fitted_Inr)
  have ne: "programs scenario_A \<noteq> []" by (simp add: programs_scenario_A)
  obtain idxs where sp: "similar_program_indices scenario_A [''fitness''] = Inr idxs"
    and len: "length idxs = length (category_matches scenario_A [''fitness''])"
    using similar_program_indices_exist[OF ne vocabulary_scenario_A] by blast
  have l2: "length idxs = 2" using len by (simp only: matches_scenario_A_fitness) simp
  note at = catalog_row_zero_iff_at[OF fx programs_scenario_A stop_words_scenario_A]
  have "sumsq (X ! 0) = 0 \<longleftrightarrow> analyze english_sample (description ([yoga, pilates, chess_club] ! 0)) = []"
    by (rule at(2)) simp
  then have n0: "sumsq (X ! 0) \<noteq> 0" by (simp add: analyze_yoga)
  have "sumsq (X ! 1) = 0 \<longleftrightarrow> analyze english_sample (description ([yoga, pilates, chess_club] ! 1)) = []"
    by (rule at(2)) simp
  then have n1: "sumsq (X ! 1) \<noteq> 0" by (simp add: analyze_pilates)
  have X0: "X ! 0 = tfidf_row english_sample m (description ([yoga, pilates, chess_club] ! 0))"
    by (rule at(1)) simp
  have X1: "X ! 1 = tfidf_row english_sample m (description ([yoga, pilates, chess_club] ! 1))"
    by (rule at(1)) simp
  have d: "X ! 0 \<noteq> X ! 1"
  proof
    assume "X ! 0 = X ! 1"
    then have "tfidf_row (stop_words scenario_A) m (description yoga)
             = tfidf_row (stop_words scenario_A) m (description pilates)"
      using X0 X1 by (simp add: stop_words_scenario_A)
    then have "set (analyze (stop_words scenario_A) (description yoga))
             = set (analyze (stop_words scenario_A) (description pilates))"
      by (intro equal_rows_equal_tokens[OF fx]) (simp_all add: programs_scenario_A)
    then have "set [''yoga'', ''fitness'', ''morning'', ''class'']
             = set [''pilates'', ''fitness'', ''evening'', ''class'']"
      by (simp only: stop_words_scenario_A analyze_yoga analyze_pilates)
    then have "''yoga'' \<in> set [''pilates'', ''fitness'', ''evening'', ''class'']"
      by (metis list.set_intros(1))
    then show False by simp
  qed
  have own: "idxs ! k = candidate_indices scenario_A [''fitness''] ! k \<longleftrightarrow>
         (if sumsq (X ! (candidate_indices scenario_A [''fitness''] ! k)) = 0
          then candidate_indices scenario_A [''fitness''] ! k = 0
          else (\<forall>j<candidate_indices scenario_A [''fitness''] ! k.
                  X ! j \<noteq> X ! (candidate_indices scenario_A [''fitness''] ! k)))"
    if "k < 2" for k
    using that by (intro best_index_own_iff[OF fx sp]) (simp add: candidates_scenario_A)
  have "idxs ! 0 = 0" using own[of 0] n0 by (simp add: candidates_scenario_A)
  moreover have "idxs ! 1 = 1" using own[of 1] n1 d by (simp add: candidates_scenario_A)
  ultimately have "idxs = [0, 1]" using l2 by (intro pair_from_nth) simp_all
  with sp show ?thesis by simp
qed

lemma recommend_scenario_A:
  "generate_recommendations scenario_A [''fitness''] n =
   Inr ([MatchingPrograms [''fitness''] [yoga, pilates]],
        map (\<lambda>i. [yoga, pilates, chess_club] ! i) (slice_to [0, 1] n))"
proof -
  have "programs scenario_A \<noteq> []" by (simp add: programs_scenario_A)
  moreover have "category_matches scenario_A [''fitness''] \<noteq> []"
    by (simp add: matches_scenario_A_fitness)
  ultimately show ?thesis
    using vocabulary_scenario_A
    by (simp add: generate_recommendations_cases indices_scenario_A matches_scenario_A_fitness
        programs_scenario_A)
qed

text \<open>Scenarios A and C of the specification.\<close>

lemma scenario_A_top_2:
  "generate_recommendations scenario_A [''fitness''] 2 =
   Inr ([MatchingPrograms [''fitness''] [yoga, pilates]], [yoga, pilates])"
  by (simp add: recommend_scenario_A slice_to_def)


lemma recommend_yoga_then_stop:
  "generate_recommendations yoga_then_stop [''of''] n =
   Inr ([MatchingPrograms [''of''] [the_of]],
        map (\<lambda>i. [yoga, the_of] ! i) (slice_to [0] n))"
proof -
  have "programs yoga_then_stop \<noteq> []" by (simp add: programs_yoga_then_stop)
  moreover have "category_matches yoga_then_stop [''of''] \<noteq> []"
    by (simp add: matches_yoga_then_stop)
  ultimately show ?thesis
    using vocabulary_yoga_then_stop
    by (simp add: generate_recommendations_cases indices_yoga_then_stop matches_yoga_then_stop
        programs_yoga_then_stop)
qed

lemma recommend_stop_words_only:
  "generate_recommendations stop_words_only cats n =
   Inl (ValueError ''empty vocabulary; perhaps the documents only contain stop words'')"
proof -
  have "programs stop_words_only \<noteq> []" by (simp add: programs_stop_words_only)
  then show ?thesis
    using vocabulary_stop_words_only by (simp add: generate_recommendations_cases)
qed

section \<open>When the method raises\<close>

lemma generate_recommendations_Inl_iff:
  "generate_recommendations self cats n = Inl e \<longleftrightarrow>
     programs self \<noteq> []
     \<and> vocabulary (stop_words self) (map description (programs self)) = []
     \<and> e = ValueError ''empty vocabulary; perhaps the documents only contain stop words''"
proof (cases "programs self \<noteq> []
     \<and> vocabulary (stop_words self) (map description (programs self)) \<noteq> []
     \<and> category_matches self cats \<noteq> []")
  case True
  then obtain idxs where "similar_program_indices self cats = Inr idxs"
    using similar_program_indices_exist[of self cats] by blast
  with True show ?thesis by (simp add: generate_recommendations_cases)
next
  case False
  then show ?thesis by (auto simp: generate_recommendations_cases)
qed

lemma cosine_similarity_nth:
  "k < length X \<Longrightarrow> j < length Y \<Longrightarrow>
   cosine_similarity X Y ! k ! j = dot (l2_normalize (X ! k)) (l2_normalize (Y ! j))"
  by (simp add: cosine_similarity_def)

lemma l2_normalize_all_zero: "\<forall>x\<in>set v. x = 0 \<Longrightarrow> l2_normalize v = v"
  by (simp add: l2_normalize_zero sumsq_eq_0_iff)

text \<open>
  C1, as stated, fails: for a catalog whose only record is made of stop words (name
  \<open>The\<close>, category \<open>of\<close>, no notes) fitting the vectorizer raises
  \<open>ValueError: empty vocabulary\<close>, and the method raises with it.
\<close>

theorem C1_counterexample:
  "generate_recommendations stop_words_only [''of''] 5 =
   Inl (ValueError ''empty vocabulary; perhaps the documents only contain stop words'')"
  by (rule recommend_stop_words_only)

text \<open>
  C1, amended: the method raises exactly when the catalog is not empty and the
  vocabulary fitted on it is empty, and then with the vectorizer's \<open>ValueError\<close>; in
  every other case it returns a list. In the similarity matrix every entry of an
  all-zero row, and every entry against an all-zero row, is zero.
\<close>

theorem raises_iff_empty_vocabulary:
  "(generate_recommendations self cats n = Inl e \<longleftrightarrow>
      programs self \<noteq> []
      \<and> vocabulary (stop_words self) (map description (programs self)) = []
      \<and> e = ValueError ''empty vocabulary; perhaps the documents only contain stop words'')
   \<and> (k < length X \<and> j < length Y \<and> (\<forall>x\<in>set (X ! k). x = 0)
        \<longrightarrow> cosine_similarity X Y ! k ! j = 0)
   \<and> (k < length X \<and> j < length Y \<and> (\<forall>y\<in>set (Y ! j). y = 0)
        \<longrightarrow> cosine_similarity X Y ! k ! j = 0)"
proof (intro conjI impI)
  show "generate_recommendations self cats n = Inl e \<longleftrightarrow>
      programs self \<noteq> []
      \<and> vocabulary (stop_words self) (map description (programs self)) = []
      \<and> e = ValueError ''empty vocabulary; perhaps the documents only contain stop words''"
    by (rule generate_recommendations_Inl_iff)
next
  assume a: "k < length X \<and> j < length Y \<and> (\<forall>x\<in>set (X ! k). x = 0)"
  then have "l2_normalize (X ! k) = X ! k" by (simp add: l2_normalize_all_zero)
  with a show "cosine_similarity X Y ! k ! j = 0"
    by (simp add: cosine_similarity_nth dot_zero_left)
next
  assume a: "k < length X \<and> j < length Y \<and> (\<forall>y\<in>set (Y ! j). y = 0)"
  then have "l2_normalize (Y ! j) = Y ! j" by (simp add: l2_normalize_all_zero)
  with a show "cosine_similarity X Y ! k ! j = 0"
    by (simp add: cosine_similarity_nth dot_zero_right)
qed

theorem raises_iff_empty_vocabulary_witness:
  "(\<exists>r. generate_recommendations scenario_A [''fitness''] 2 = Inr r)
   \<and> programs stop_words_only \<noteq> []
   \<and> vocabulary (stop_words stop_words_only) (map description (programs stop_words_only)) = []
   \<and> generate_recommendations stop_words_only [''of''] 2 =
       Inl (ValueError ''empty vocabulary; perhaps the documents only contain stop words'')
   \<and> cosine_similarity [[0, 0]] [[1, 0], [0, 1]] ! 0 ! 1 = 0"
proof -
  have a: "programs stop_words_only \<noteq> []" by (simp add: programs_stop_words_only)
  have z: "(0::nat) < length [[0, 0 :: real]] \<and> (1::nat) < length [[1, 0], [0, 1 :: real]]
           \<and> (\<forall>x\<in>set ([[0, 0 :: real]] ! 0). x = 0)"
    by simp
  have "generate_recommendations scenario_A [''fitness''] 2 \<noteq> Inl e" for e
    using raises_iff_empty_vocabulary[of scenario_A "[''fitness'']" 2 e 0 "[]" 0 "[]"]
      vocabulary_scenario_A
    by blast
  then have 1: "\<exists>r. generate_recommendations scenario_A [''fitness''] 2 = Inr r"
    by (cases "generate_recommendations scenario_A [''fitness''] 2") auto
  from raises_iff_empty_vocabulary[of stop_words_only "[''of'']" 2
      "ValueError ''empty vocabulary; perhaps the documents only contain stop words''"
      0 "[]" 0 "[]"] vocabulary_stop_words_only a
  have 2: "generate_recommendations stop_words_only [''of''] 2 =
       Inl (ValueError ''empty vocabulary; perhaps the documents only contain stop words'')"
    by blast
  from raises_iff_empty_vocabulary[of scenario_A "[]" 0 "IndexError"
      0 "[[0, 0]]" 1 "[[1, 0], [0, 1]]"] z
  have 3: "cosine_similarity [[0, 0]] [[1, 0], [0, 1]] ! 0 ! 1 = 0"
    by blast
  from 1 2 3 a vocabulary_stop_words_only show ?thesis by blast
qed

section \<open>Non-positive top\_n and the length of the result\<close>

lemma recommend_Inr_cases:
  assumes "generate_recommendations self cats n = Inr (out, res)"
  shows "(category_matches self cats = [] \<and> res = [])
       \<or> (category_matches self cats \<noteq> [] \<and>
          (\<exists>idxs. similar_program_indices self cats = Inr idxs
                 \<and> length idxs = length (category_matches self cats)
                 \<and> res = map (\<lambda>i. programs self ! i) (slice_to idxs n)))"
proof (cases "programs self = []")
  case True
  with assms show ?thesis
    by (simp add: generate_recommendations_cases category_matches_def)
next
  case ne: False
  have voc: "vocabulary (stop_words self) (map description (programs self)) \<noteq> []"
    using assms ne by (auto simp: generate_recommendations_cases split: if_splits)
  show ?thesis
  proof (cases "category_matches self cats = []")
    case True
    with assms ne voc show ?thesis by (simp add: generate_recommendations_cases)
  next
    case False
    obtain idxs where sp: "similar_program_indices self cats = Inr idxs"
      and len: "length idxs = length (category_matches self cats)"
      using similar_program_indices_exist[OF ne voc] by blast
    with assms ne voc False show ?thesis by (simp add: generate_recommendations_cases)
  qed
qed

text \<open>
  C3, as stated, fails in two ways. With \<open>top_n = 0\<close> and a catalog made of stop words
  the method raises. With \<open>top_n = -1\<close> on the catalog of Scenario A the slice
  \<open>[:-1]\<close> drops the last of the two indices only, and one record is returned.
\<close>

theorem C3_counterexample:
  "generate_recommendations stop_words_only [''of''] 0 =
     Inl (ValueError ''empty vocabulary; perhaps the documents only contain stop words'')
   \<and> generate_recommendations scenario_A [''fitness''] (- 1) =
     Inr ([MatchingPrograms [''fitness''] [yoga, pilates]], [yoga])"
  by (simp add: recommend_stop_words_only recommend_scenario_A slice_to_def)

text \<open>
  C3, amended: with \<open>top_n = 0\<close> the method returns the empty list, unless the catalog
  is not empty and its fitted vocabulary is empty, where it raises \<open>ValueError\<close>.
\<close>

theorem top_n_zero_returns_empty:
  "(programs self = [] \<or> vocabulary (stop_words self) (map description (programs self)) \<noteq> []
      \<longrightarrow> (\<exists>out. generate_recommendations self cats 0 = Inr (out, [])))
   \<and> (programs self \<noteq> [] \<and> vocabulary (stop_words self) (map description (programs self)) = []
      \<longrightarrow> generate_recommendations self cats 0 =
          Inl (ValueError ''empty vocabulary; perhaps the documents only contain stop words''))"
proof (intro conjI impI)
  assume a: "programs self = [] \<or> vocabulary (stop_words self) (map description (programs self)) \<noteq> []"
  have "generate_recommendations self cats 0 \<noteq> Inl e" for e
    using a by (auto simp: generate_recommendations_Inl_iff)
  then obtain out res where r: "generate_recommendations self cats 0 = Inr (out, res)"
    by (cases "generate_recommendations self cats 0") auto
  from recommend_Inr_cases[OF r] have "res = []" by (auto simp: slice_to_def)
  with r show "\<exists>out. generate_recommendations self cats 0 = Inr (out, [])" by blast
next
  assume "programs self \<noteq> [] \<and> vocabulary (stop_words self) (map description (programs self)) = []"
  then show "generate_recommendations self cats 0 =
          Inl (ValueError ''empty vocabulary; perhaps the documents only contain stop words'')"
    by (simp add: generate_recommendations_Inl_iff)
qed

theorem top_n_zero_returns_empty_witness:
  "vocabulary (stop_words scenario_A) (map description (programs scenario_A)) \<noteq> []
   \<and> (\<exists>out. generate_recommendations scenario_A [''fitness''] 0 = Inr (out, []))"
  using top_n_zero_returns_empty[of scenario_A "[''fitness'']"] vocabulary_scenario_A
  by blast

text \<open>
  C4, as stated, fails: with \<open>top_n = -1\<close> the catalog of Scenario A gives one record,
  and 1 is not at most \<open>min (-1) 2\<close>.
\<close>

theorem C4_counterexample:
  "generate_recommendations scenario_A [''fitness''] (- 1) =
     Inr ([MatchingPrograms [''fitness''] [yoga, pilates]], [yoga])
   \<and> length (category_matches scenario_A [''fitness'']) = 2
   \<and> \<not> int (length [yoga]) \<le> min (- 1) (int (length (category_matches scenario_A [''fitness''])))"
  by (simp add: recommend_scenario_A slice_to_def matches_scenario_A_fitness)

text \<open>
  C4, amended: the returned list is never longer than the number of candidates, and
  for \<open>top_n \<ge> 0\<close> its length is at most the minimum of \<open>top_n\<close> and the number of
  candidates.
\<close>

theorem result_length_bound:
  assumes "generate_recommendations self cats n = Inr (out, res)"
  shows "length res \<le> length (category_matches self cats)
       \<and> (0 \<le> n \<longrightarrow> int (length res) \<le> min n (int (length (category_matches self cats))))"
proof -
  from recommend_Inr_cases[OF assms]
  consider "res = []"
    | idxs where "length idxs = length (category_matches self cats)"
        "res = map (\<lambda>i. programs self ! i) (slice_to idxs n)"
    by blast
  then show ?thesis
  proof cases
    case 1
    then show ?thesis by simp
  next
    case 2
    then show ?thesis by (auto simp: slice_to_def)
  qed
qed

theorem result_length_bound_witness:
  "generate_recommendations scenario_A [''fitness''] 1 =
     Inr ([MatchingPrograms [''fitness''] [yoga, pilates]], [yoga])
   \<and> length [yoga] \<le> length (category_matches scenario_A [''fitness''])
   \<and> int (length [yoga]) \<le> min 1 (int (length (category_matches scenario_A [''fitness''])))"
proof -
  have r: "generate_recommendations scenario_A [''fitness''] 1 =
     Inr ([MatchingPrograms [''fitness''] [yoga, pilates]], [yoga])"
    by (simp add: recommend_scenario_A slice_to_def)
  from result_length_bound[OF r] r show ?thesis by simp
qed

section \<open>Empty catalog, no candidate\<close>

text \<open>
  C8, as stated, fails: no record of the stop-word catalog has the category \<open>music\<close>,
  yet the method raises, because the vectorizer is fitted before the candidates are
  selected.
\<close>

theorem C8_counterexample:
  "category_matches stop_words_only [''music''] = []
   \<and> generate_recommendations stop_words_only [''music''] 5 =
     Inl (ValueError ''empty vocabulary; perhaps the documents only contain stop words'')"
proof -
  have "category_matches stop_words_only [''music''] = []" by code_simp
  then show ?thesis by (simp add: recommend_stop_words_only)
qed

text \<open>
  C8, amended: on an empty catalog the method returns the empty list and prints that no
  programs are available; on a catalog with a non-empty fitted vocabulary and no record
  of a desired category it returns the empty list and prints the note that names the
  categories.
\<close>

theorem empty_inputs_return_empty:
  "(programs self = [] \<longrightarrow>
      generate_recommendations self cats n = Inr ([NoProgramsAvailable], []))
   \<and> (programs self \<noteq> []
      \<and> vocabulary (stop_words self) (map description (programs self)) \<noteq> []
      \<and> category_matches self cats = [] \<longrightarrow>
      generate_recommendations self cats n =
        Inr ([MatchingPrograms cats [], NoProgramsFound cats], []))"
  by (simp add: generate_recommendations_cases)

theorem empty_inputs_return_empty_witness:
  "generate_recommendations no_programs [''fitness''] 5 = Inr ([NoProgramsAvailable], [])
   \<and> generate_recommendations scenario_A [''music''] 5 =
       Inr ([MatchingPrograms [''music''] [], NoProgramsFound [''music'']], [])"
proof -
  have e: "programs no_programs = []" by (simp add: no_programs_def)
  have ne: "programs scenario_A \<noteq> []" by (simp add: programs_scenario_A)
  from empty_inputs_return_empty[of no_programs "[''fitness'']" 5] e
  have 1: "generate_recommendations no_programs [''fitness''] 5 = Inr ([NoProgramsAvailable], [])"
    by blast
  from empty_inputs_return_empty[of scenario_A "[''music'']" 5] ne vocabulary_scenario_A
    matches_scenario_A_music
  have 2: "generate_recommendations scenario_A [''music''] 5 =
       Inr ([MatchingPrograms [''music''] [], NoProgramsFound [''music'']], [])"
    by blast
  from 1 2 show ?thesis by blast
qed

section \<open>What the method selects\<close>

lemma recommend_selects:
  assumes "generate_recommendations self cats n = Inr (out, res)"
    and "category_matches self cats \<noteq> []"
  obtains m X idxs where
    "fit_transform (stop_words self) (map description (programs self)) = Inr (m, X)"
    "argmax_axis1 (similarities self cats m X) = Inr idxs"
    "length idxs = length (category_matches self cats)"
    "res = map (\<lambda>i. programs self ! i) (slice_to idxs n)"
    "fitted self = Inr (m, X)"
    "similar_program_indices self cats = Inr idxs"
proof -
  from recommend_Inr_cases[OF assms(1)] assms(2) obtain idxs where
    sp: "similar_program_indices self cats = Inr idxs"
    and len: "length idxs = length (category_matches self cats)"
    and res: "res = map (\<lambda>i. programs self ! i) (slice_to idxs n)"
    by blast
  from sp obtain m X where fx: "fitted self = Inr (m, X)"
    and ax: "argmax_axis1 (similarities self cats m X) = Inr idxs"
    by (auto simp: similar_program_indices_def similarity_rows_def split: sum.splits)
  from fx have "fit_transform (stop_words self) (map description (programs self)) = Inr (m, X)"
    by (simp add: fitted_def)
  then show ?thesis using ax len res fx sp by (rule that)
qed

lemma similarities_row:
  assumes "fitted self = Inr (m, X)" "k < length (category_matches self cats)"
  shows "similarities self cats m X ! k =
         map (cosine (stop_words self) m (category_matches self cats ! k)) (programs self)"
proof -
  have "Inr (similarities self cats m X) =
        (Inr (map (\<lambda>c. map (\<lambda>q. cosine (stop_words self) m c q) (programs self))
                  (category_matches self cats)) :: error + real list list)"
    using similarity_rows_cosine[OF assms(1), of cats] assms(1)
    by (simp add: similarity_rows_def)
  then have "similarities self cats m X =
             map (\<lambda>c. map (\<lambda>q. cosine (stop_words self) m c q) (programs self))
                 (category_matches self cats)"
    by simp
  then show ?thesis using assms(2) by simp
qed

lemma row_first_maximum:
  assumes "fitted self = Inr (m, X)"
    and "similar_program_indices self cats = Inr idxs"
    and "k < length (category_matches self cats)"
  shows "length (similarities self cats m X ! k) = length (programs self)"
    and "idxs ! k < length (programs self)"
    and "\<forall>j<length (programs self).
           similarities self cats m X ! k ! j \<le> similarities self cats m X ! k ! (idxs ! k)"
    and "\<forall>j<idxs ! k.
           similarities self cats m X ! k ! j < similarities self cats m X ! k ! (idxs ! k)"
proof -
  note row = similarities_row[OF assms(1,3)]
  note spec = best_index_spec[OF assms]
  show "length (similarities self cats m X ! k) = length (programs self)"
    by (simp add: row)
  show b: "idxs ! k < length (programs self)" by (rule spec(2))
  show "\<forall>j<length (programs self).
           similarities self cats m X ! k ! j \<le> similarities self cats m X ! k ! (idxs ! k)"
    using spec(3) b by (simp add: row)
  show "\<forall>j<idxs ! k.
           similarities self cats m X ! k ! j < similarities self cats m X ! k ! (idxs ! k)"
    using spec(4) b by (simp add: row)
qed

text \<open>The first position of the maximum, said with \<open>Min\<close> and \<open>Max\<close>.\<close>

lemma first_maximum_Min_Max:
  fixes row :: "real list"
  assumes "i < length row" "\<forall>j<length row. row ! j \<le> row ! i" "\<forall>j<i. row ! j < row ! i"
  shows "row ! i = Max (set row)"
    and "i = Min {j. j < length row \<and> row ! j = Max (set row)}"
proof -
  have "Max (set row) = row ! i"
  proof (rule Max_eqI)
    show "finite (set row)" by simp
    show "row ! i \<in> set row" using assms(1) by simp
    fix y assume "y \<in> set row"
    then obtain j where "j < length row" "row ! j = y" by (auto simp: in_set_conv_nth)
    with assms(2) show "y \<le> row ! i" by auto
  qed
  then show mx: "row ! i = Max (set row)" by simp
  have "Min {j. j < length row \<and> row ! j = Max (set row)} = i"
  proof (rule Min_eqI)
    show "finite {j. j < length row \<and> row ! j = Max (set row)}" by simp
    show "i \<in> {j. j < length row \<and> row ! j = Max (set row)}" using assms(1) mx by simp
    fix j assume "j \<in> {j. j < length row \<and> row ! j = Max (set row)}"
    then have j: "row ! j = row ! i" using mx by simp
    show "i \<le> j"
    proof (rule ccontr)
      assume "\<not> i \<le> j"
      then have "j < i" by simp
      with assms(3) have "row ! j < row ! i" by blast
      with j show False by simp
    qed
  qed
  then show "i = Min {j. j < length row \<and> row ! j = Max (set row)}" by simp
qed

section \<open>Similarities that do not depend on rounding\<close>

lemma dot_pointwise_zero:
  "\<forall>(a, b)\<in>set (zip u v). a = 0 \<or> b = 0 \<Longrightarrow> dot u v = 0"
  unfolding dot_def
proof (induction u arbitrary: v)
  case Nil
  then show ?case by simp
next
  case (Cons a u)
  then show ?case by (cases v) auto
qed

lemma cosine_disjoint_tokens:
  assumes "fitted self = Inr (m, X)"
    and "set (analyze (stop_words self) (description p))
       \<inter> set (analyze (stop_words self) (description q)) = {}"
  shows "cosine (stop_words self) m p q = 0"
proof -
  let ?u = "tfidf_row (stop_words self) m (description p)"
  let ?v = "tfidf_row (stop_words self) m (description q)"
  have lu: "length ?u = length (model_vocabulary m)"
    and lv: "length ?v = length (model_vocabulary m)"
    by (simp_all add: length_tfidf_row_fitted[OF assms(1)])
  have "\<forall>(a, b)\<in>set (zip ?u ?v). a = 0 \<or> b = 0"
  proof (clarify)
    fix a b assume "(a, b) \<in> set (zip ?u ?v)" "b \<noteq> 0"
    then obtain i where i: "i < length (model_vocabulary m)" "?u ! i = a" "?v ! i = b"
      using lu lv by (auto simp: set_zip)
    from i(3) \<open>b \<noteq> 0\<close> have "model_vocabulary m ! i \<in> set (analyze (stop_words self) (description q))"
      using tfidf_row_nth_zero_iff[OF assms(1) i(1), of "description q"] by auto
    with assms(2) have "model_vocabulary m ! i \<notin> set (analyze (stop_words self) (description p))"
      by blast
    then have "?u ! i = 0"
      using tfidf_row_nth_zero_iff[OF assms(1) i(1), of "description p"] by simp
    with i(2) show "a = 0" by simp
  qed
  then have "dot ?u ?v = 0" by (rule dot_pointwise_zero)
  then show ?thesis by (simp add: cosine_dot)
qed

lemma same_counts_same_row:
  assumes "\<forall>t. count_list (analyze sw d) t = count_list (analyze sw d') t"
  shows "tfidf_row sw m d = tfidf_row sw m d'"
  using assms by (simp add: tfidf_row_def weighted_counts_def)

lemma cosine_pos_self:
  assumes "fitted self = Inr (m, X)" "p \<in> set (programs self)"
    and "analyze (stop_words self) (description p) \<noteq> []"
  shows "cosine (stop_words self) m p p = 1"
  using catalog_row_zero_iff[OF assms(1,2)] assms(3) by (simp add: cosine_self)

section \<open>When a candidate is matched to itself\<close>

lemma own_index_iff_order:
  assumes "fitted self = Inr (m, X)"
    and "similar_program_indices self cats = Inr idxs"
    and "k < length (candidate_indices self cats)"
  shows "idxs ! k = candidate_indices self cats ! k \<longleftrightarrow>
         (\<forall>j<candidate_indices self cats ! k.
             similarities self cats m X ! k ! j
           < similarities self cats m X ! k ! (candidate_indices self cats ! k))
         \<and> (\<forall>j<length (programs self).
             similarities self cats m X ! k ! j
           \<le> similarities self cats m X ! k ! (candidate_indices self cats ! k))"
proof -
  let ?i = "candidate_indices self cats ! k"
  let ?row = "similarities self cats m X ! k"
  have kc: "k < length (category_matches self cats)"
    using assms(3) by (simp add: length_candidate_indices)
  note fm = row_first_maximum[OF assms(1,2) kc]
  have ib: "?i < length (programs self)" by (rule candidate_indices_bound[OF assms(3)])
  show ?thesis
  proof
    assume "idxs ! k = ?i"
    with fm(3,4) show "(\<forall>j<?i. ?row ! j < ?row ! ?i) \<and> (\<forall>j<length (programs self). ?row ! j \<le> ?row ! ?i)"
      by simp
  next
    assume a: "(\<forall>j<?i. ?row ! j < ?row ! ?i) \<and> (\<forall>j<length (programs self). ?row ! j \<le> ?row ! ?i)"
    show "idxs ! k = ?i"
    proof (rule first_max_unique[of _ ?row])
      show "idxs ! k < length ?row" using fm(1,2) by simp
      show "\<forall>j<length ?row. ?row ! j \<le> ?row ! (idxs ! k)" using fm(1,3) by simp
      show "\<forall>j<idxs ! k. ?row ! j < ?row ! (idxs ! k)" by (rule fm(4))
      show "?i < length ?row" using fm(1) ib by simp
      show "\<forall>j<length ?row. ?row ! j \<le> ?row ! ?i" using a fm(1) by simp
      show "\<forall>j<?i. ?row ! j < ?row ! ?i" using a by simp
    qed
  qed
qed

lemma candidate_is_catalog_record:
  assumes "k < length (candidate_indices self cats)"
  shows "category_matches self cats ! k = programs self ! (candidate_indices self cats ! k)"
    and "programs self ! (candidate_indices self cats ! k) \<in> set (programs self)"
proof -
  show "category_matches self cats ! k = programs self ! (candidate_indices self cats ! k)"
    using assms by (simp add: category_matches_positions)
  show "programs self ! (candidate_indices self cats ! k) \<in> set (programs self)"
    using candidate_indices_bound[OF assms] by simp
qed

lemma no_token_candidate:
  assumes "fitted self = Inr (m, X)"
    and "similar_program_indices self cats = Inr idxs"
    and "k < length (candidate_indices self cats)"
    and "analyze (stop_words self)
           (description (programs self ! (candidate_indices self cats ! k))) = []"
  shows "\<forall>j<length (programs self). similarities self cats m X ! k ! j = 0"
    and "idxs ! k = 0"
proof -
  let ?c = "category_matches self cats ! k"
  have kc: "k < length (category_matches self cats)"
    using assms(3) by (simp add: length_candidate_indices)
  note c = candidate_is_catalog_record[OF assms(3)]
  have z: "sumsq (tfidf_row (stop_words self) m (description ?c)) = 0"
    using catalog_row_zero_iff[OF assms(1) c(2)] assms(4) c(1) by simp
  show "\<forall>j<length (programs self). similarities self cats m X ! k ! j = 0"
    by (simp add: similarities_row[OF assms(1) kc] cosine_zero_left[OF z])
  show "idxs ! k = 0" by (rule zero_row_best_index[OF assms(1,2) kc z])
qed

lemma isolated_candidate:
  assumes "fitted self = Inr (m, X)"
    and "similar_program_indices self cats = Inr idxs"
    and "k < length (candidate_indices self cats)"
    and "analyze (stop_words self)
           (description (programs self ! (candidate_indices self cats ! k))) \<noteq> []"
    and "\<forall>j<length (programs self). j \<noteq> candidate_indices self cats ! k \<longrightarrow>
           set (analyze (stop_words self) (description (programs self ! j)))
         \<inter> set (analyze (stop_words self)
                  (description (programs self ! (candidate_indices self cats ! k)))) = {}"
  shows "idxs ! k = candidate_indices self cats ! k"
proof -
  let ?i = "candidate_indices self cats ! k"
  let ?c = "category_matches self cats ! k"
  let ?row = "similarities self cats m X ! k"
  have kc: "k < length (category_matches self cats)"
    using assms(3) by (simp add: length_candidate_indices)
  note c = candidate_is_catalog_record[OF assms(3)]
  have ib: "?i < length (programs self)" by (rule candidate_indices_bound[OF assms(3)])
  have row: "?row ! j = cosine (stop_words self) m ?c (programs self ! j)"
    if "j < length (programs self)" for j
    using that by (simp add: similarities_row[OF assms(1) kc])
  have own: "?row ! ?i = 1"
    using cosine_pos_self[OF assms(1) c(2) assms(4)] row[OF ib] c(1) by simp
  have other: "?row ! j = 0" if "j < length (programs self)" "j \<noteq> ?i" for j
  proof -
    from assms(5) that have
      "set (analyze (stop_words self) (description ?c))
     \<inter> set (analyze (stop_words self) (description (programs self ! j))) = {}"
      using c(1) by auto
    then show ?thesis using cosine_disjoint_tokens[OF assms(1)] row[OF that(1)] by simp
  qed
  have "(\<forall>j<?i. ?row ! j < ?row ! ?i) \<and> (\<forall>j<length (programs self). ?row ! j \<le> ?row ! ?i)"
  proof (intro conjI allI impI)
    fix j assume "j < ?i"
    with ib other[of j] own show "?row ! j < ?row ! ?i" by simp
  next
    fix j assume j: "j < length (programs self)"
    show "?row ! j \<le> ?row ! ?i"
    proof (cases "j = ?i")
      case True
      then show ?thesis by simp
    next
      case False
      with other[OF j] own show ?thesis by simp
    qed
  qed
  then show ?thesis by (simp add: own_index_iff_order[OF assms(1,2,3)])
qed

lemma repeated_counts_candidate:
  assumes "fitted self = Inr (m, X)"
    and "similar_program_indices self cats = Inr idxs"
    and "k < length (candidate_indices self cats)"
    and "j < candidate_indices self cats ! k"
    and "\<forall>t. count_list (analyze (stop_words self) (description (programs self ! j))) t
           = count_list (analyze (stop_words self)
                (description (programs self ! (candidate_indices self cats ! k)))) t"
  shows "similarities self cats m X ! k ! j
       = similarities self cats m X ! k ! (candidate_indices self cats ! k)"
    and "idxs ! k \<noteq> candidate_indices self cats ! k"
proof -
  let ?i = "candidate_indices self cats ! k"
  let ?c = "category_matches self cats ! k"
  let ?row = "similarities self cats m X ! k"
  have kc: "k < length (category_matches self cats)"
    using assms(3) by (simp add: length_candidate_indices)
  note c = candidate_is_catalog_record[OF assms(3)]
  have ib: "?i < length (programs self)" by (rule candidate_indices_bound[OF assms(3)])
  with assms(4) have jb: "j < length (programs self)" by simp
  have "tfidf_row (stop_words self) m (description (programs self ! j))
      = tfidf_row (stop_words self) m (description (programs self ! ?i))"
    by (rule same_counts_same_row[OF assms(5)])
  then have "cosine (stop_words self) m ?c (programs self ! j)
           = cosine (stop_words self) m ?c (programs self ! ?i)"
    by (simp add: cosine_def)
  then show eq: "?row ! j = ?row ! ?i"
    using jb ib by (simp add: similarities_row[OF assms(1) kc])
  show "idxs ! k \<noteq> ?i"
  proof
    assume "idxs ! k = ?i"
    then have "\<forall>j<?i. ?row ! j < ?row ! ?i"
      by (simp add: own_index_iff_order[OF assms(1,2,3)])
    with assms(4) eq show False by auto
  qed
qed

section \<open>Two more catalogs, evaluated\<close>

lemma programs_chess_then_yoga: "programs chess_then_yoga = [chess_club, yoga]"
  by (simp add: chess_then_yoga_def)

lemma stop_words_chess_then_yoga: "stop_words chess_then_yoga = english_sample"
  by (simp add: chess_then_yoga_def)

lemma programs_same_words: "programs same_words = [class_yoga, yoga_class]"
  by (simp add: same_words_def)

lemma stop_words_same_words: "stop_words same_words = english_sample"
  by (simp add: same_words_def)

lemma vocabulary_chess_then_yoga:
  "vocabulary (stop_words chess_then_yoga) (map description (programs chess_then_yoga)) \<noteq> []"
  by code_simp

lemma vocabulary_same_words:
  "vocabulary (stop_words same_words) (map description (programs same_words)) \<noteq> []"
  by code_simp

lemma analyze_chess_club:
  "analyze english_sample (description chess_club)
   = [''chess'', ''club'', ''games'', ''weekly'', ''meetup'']"
  by code_simp

lemma analyze_class_yoga:
  "analyze english_sample (description class_yoga) = [''class'', ''yoga'', ''fitness'']"
  by code_simp

lemma analyze_yoga_class:
  "analyze english_sample (description yoga_class) = [''yoga'', ''class'', ''fitness'']"
  by code_simp

lemma matches_chess_then_yoga: "category_matches chess_then_yoga [''fitness''] = [yoga]"
  by code_simp

lemma matches_same_words:
  "category_matches same_words [''fitness''] = [class_yoga, yoga_class]"
  by code_simp

lemma candidates_chess_then_yoga: "candidate_indices chess_then_yoga [''fitness''] = [1]"
  by code_simp

lemma candidates_same_words: "candidate_indices same_words [''fitness''] = [0, 1]"
  by code_simp

lemma texts_same_words:
  "description (programs same_words ! 0) \<noteq> description (programs same_words ! 1)"
  by code_simp

lemma disjoint_chess_yoga:
  "set (analyze english_sample (description chess_club))
 \<inter> set (analyze english_sample (description yoga)) = {}"
  by (simp add: analyze_chess_club analyze_yoga)

lemma same_counts_same_words:
  "count_list (analyze english_sample (description class_yoga)) t
 = count_list (analyze english_sample (description yoga_class)) t"
  by (simp add: analyze_class_yoga analyze_yoga_class)

lemma indices_chess_then_yoga:
  "similar_program_indices chess_then_yoga [''fitness''] = Inr [1]"
proof -
  obtain m X where fx: "fitted chess_then_yoga = Inr (m, X)"
    using vocabulary_chess_then_yoga by (rule fitted_Inr)
  have ne: "programs chess_then_yoga \<noteq> []" by (simp add: programs_chess_then_yoga)
  obtain idxs where sp: "similar_program_indices chess_then_yoga [''fitness''] = Inr idxs"
    and len: "length idxs = length (category_matches chess_then_yoga [''fitness''])"
    using similar_program_indices_exist[OF ne vocabulary_chess_then_yoga] by blast
  have l1: "length idxs = 1" using len by (simp only: matches_chess_then_yoga) simp
  have "idxs ! 0 = candidate_indices chess_then_yoga [''fitness''] ! 0"
  proof (rule isolated_candidate[OF fx sp])
    show "0 < length (candidate_indices chess_then_yoga [''fitness''])"
      by (simp add: candidates_chess_then_yoga)
    show "analyze (stop_words chess_then_yoga)
           (description (programs chess_then_yoga
              ! (candidate_indices chess_then_yoga [''fitness''] ! 0))) \<noteq> []"
      by (simp add: candidates_chess_then_yoga programs_chess_then_yoga
          stop_words_chess_then_yoga analyze_yoga)
    show "\<forall>j<length (programs chess_then_yoga).
           j \<noteq> candidate_indices chess_then_yoga [''fitness''] ! 0 \<longrightarrow>
           set (analyze (stop_words chess_then_yoga) (description (programs chess_then_yoga ! j)))
         \<inter> set (analyze (stop_words chess_then_yoga)
                  (description (programs chess_then_yoga
                     ! (candidate_indices chess_then_yoga [''fitness''] ! 0)))) = {}"
      using disjoint_chess_yoga
      by (simp add: candidates_chess_then_yoga programs_chess_then_yoga
          stop_words_chess_then_yoga less_Suc_eq)
  qed
  then have "idxs ! 0 = 1" by (simp add: candidates_chess_then_yoga)
  with l1 have "idxs = [1]" by (rule singleton_from_nth)
  with sp show ?thesis by simp
qed

lemma indices_same_words:
  "similar_program_indices same_words [''fitness''] = Inr [0, 0]"
proof -
  obtain m X where fx: "fitted same_words = Inr (m, X)"
    using vocabulary_same_words by (rule fitted_Inr)
  have ne: "programs same_words \<noteq> []" by (simp add: programs_same_words)
  obtain idxs where sp: "similar_program_indices same_words [''fitness''] = Inr idxs"
    and len: "length idxs = length (category_matches same_words [''fitness''])"
    using similar_program_indices_exist[OF ne vocabulary_same_words] by blast
  have l2: "length idxs = 2" using len by (simp only: matches_same_words) simp
  have b: "idxs ! k < 2" if "k < 2" for k
    using similar_program_indices_bound[OF sp, of "idxs ! k"] that l2
    by (simp add: programs_same_words)
  have "idxs ! 1 \<noteq> candidate_indices same_words [''fitness''] ! 1"
  proof (rule repeated_counts_candidate(2)[OF fx sp, of 1 0])
    show "1 < length (candidate_indices same_words [''fitness''])"
      by (simp add: candidates_same_words)
    show "0 < candidate_indices same_words [''fitness''] ! 1"
      by (simp add: candidates_same_words)
    show "\<forall>t. count_list (analyze (stop_words same_words)
                  (description (programs same_words ! 0))) t
           = count_list (analyze (stop_words same_words)
                (description (programs same_words
                   ! (candidate_indices same_words [''fitness''] ! 1)))) t"
      using same_counts_same_words
      by (simp add: candidates_same_words programs_same_words stop_words_same_words)
  qed
  then have "idxs ! 1 \<noteq> 1" by (simp add: candidates_same_words)
  with b[of 1] have i1: "idxs ! 1 = 0" by simp
  have "idxs ! 0 \<le> 0"
  proof (rule ccontr)
    assume "\<not> idxs ! 0 \<le> 0"
    with b[of 0] have one: "idxs ! 0 = 1" by simp
    have k0: "0 < length (category_matches same_words [''fitness''])"
      by (simp add: matches_same_words)
    from best_index_spec(4)[OF fx sp k0] one
    have "cosine (stop_words same_words) m (category_matches same_words [''fitness''] ! 0)
            (programs same_words ! 0)
        < cosine (stop_words same_words) m (category_matches same_words [''fitness''] ! 0)
            (programs same_words ! 1)"
      by simp
    moreover have "tfidf_row english_sample m (description class_yoga)
                 = tfidf_row english_sample m (description yoga_class)"
      by (rule same_counts_same_row) (simp add: same_counts_same_words)
    ultimately show False
      by (simp add: matches_same_words programs_same_words stop_words_same_words cosine_def)
  qed
  then have "idxs ! 0 = 0" by simp
  with i1 l2 have "idxs = [0, 0]" by (intro pair_from_nth) simp_all
  with sp show ?thesis by simp
qed

lemma recommend_chess_then_yoga:
  "generate_recommendations chess_then_yoga [''fitness''] n =
   Inr ([MatchingPrograms [''fitness''] [yoga]],
        map (\<lambda>i. [chess_club, yoga] ! i) (slice_to [1] n))"
proof -
  have "programs chess_then_yoga \<noteq> []" by (simp add: programs_chess_then_yoga)
  moreover have "category_matches chess_then_yoga [''fitness''] \<noteq> []"
    by (simp add: matches_chess_then_yoga)
  ultimately show ?thesis
    using vocabulary_chess_then_yoga
    by (simp add: generate_recommendations_cases indices_chess_then_yoga matches_chess_then_yoga
        programs_chess_then_yoga)
qed

lemma recommend_same_words:
  "generate_recommendations same_words [''fitness''] n =
   Inr ([MatchingPrograms [''fitness''] [class_yoga, yoga_class]],
        map (\<lambda>i. [class_yoga, yoga_class] ! i) (slice_to [0, 0] n))"
proof -
  have "programs same_words \<noteq> []" by (simp add: programs_same_words)
  moreover have "category_matches same_words [''fitness''] \<noteq> []"
    by (simp add: matches_same_words)
  ultimately show ?thesis
    using vocabulary_same_words
    by (simp add: generate_recommendations_cases indices_same_words matches_same_words
        programs_same_words)
qed

section \<open>Best match, order of the result\<close>

text \<open>
  C6: whenever the method returns and there are candidates, the list it returns is read
  off a list \<open>idxs\<close> of catalog positions, one per candidate: the result of \<open>argmax\<close> on
  \<open>similarities\<close>. Row \<open>k\<close> of \<open>similarities\<close> holds the cosines of candidate \<open>k\<close>
  against every catalog record, in catalog order, and \<open>idxs ! k\<close> is the smallest
  position at which that row takes its maximum.
\<close>

theorem selected_index_is_smallest_maximum:
  assumes "generate_recommendations self cats n = Inr (out, res)"
    and "category_matches self cats \<noteq> []"
  shows "\<exists>m X idxs.
           fit_transform (stop_words self) (map description (programs self)) = Inr (m, X)
         \<and> argmax_axis1 (similarities self cats m X) = Inr idxs
         \<and> length idxs = length (category_matches self cats)
         \<and> res = map (\<lambda>i. programs self ! i) (slice_to idxs n)
         \<and> (\<forall>k<length (category_matches self cats).
               similarities self cats m X ! k
                 = map (cosine (stop_words self) m (category_matches self cats ! k)) (programs self)
             \<and> idxs ! k < length (programs self)
             \<and> similarities self cats m X ! k ! (idxs ! k)
                 = Max (set (similarities self cats m X ! k))
             \<and> idxs ! k = Min {j. j < length (programs self)
                                  \<and> similarities self cats m X ! k ! j
                                      = Max (set (similarities self cats m X ! k))})"
proof -
  from assms obtain m X idxs where
    ft: "fit_transform (stop_words self) (map description (programs self)) = Inr (m, X)"
    and ax: "argmax_axis1 (similarities self cats m X) = Inr idxs"
    and len: "length idxs = length (category_matches self cats)"
    and res: "res = map (\<lambda>i. programs self ! i) (slice_to idxs n)"
    and fx: "fitted self = Inr (m, X)"
    and sp: "similar_program_indices self cats = Inr idxs"
    by (rule recommend_selects)
  have "similarities self cats m X ! k
          = map (cosine (stop_words self) m (category_matches self cats ! k)) (programs self)
      \<and> idxs ! k < length (programs self)
      \<and> similarities self cats m X ! k ! (idxs ! k) = Max (set (similarities self cats m X ! k))
      \<and> idxs ! k = Min {j. j < length (programs self)
                           \<and> similarities self cats m X ! k ! j
                               = Max (set (similarities self cats m X ! k))}"
    if k: "k < length (category_matches self cats)" for k
  proof -
    let ?row = "similarities self cats m X ! k"
    note fm = row_first_maximum[OF fx sp k]
    have b: "idxs ! k < length ?row" using fm(1,2) by simp
    have le: "\<forall>j<length ?row. ?row ! j \<le> ?row ! (idxs ! k)" using fm(1,3) by simp
    note mm = first_maximum_Min_Max[OF b le fm(4)]
    from mm(2) have "idxs ! k = Min {j. j < length (programs self) \<and> ?row ! j = Max (set ?row)}"
      by (simp only: fm(1))
    with similarities_row[OF fx k] fm(2) mm(1) show ?thesis by blast
  qed
  with ft ax len res show ?thesis by blast
qed

theorem selected_index_is_smallest_maximum_witness:
  "generate_recommendations yoga_then_stop [''of''] 5
     = Inr ([MatchingPrograms [''of''] [the_of]], [yoga])
   \<and> category_matches yoga_then_stop [''of''] \<noteq> []
   \<and> (\<exists>m X idxs.
         fit_transform (stop_words yoga_then_stop) (map description (programs yoga_then_stop))
           = Inr (m, X)
       \<and> argmax_axis1 (similarities yoga_then_stop [''of''] m X) = Inr idxs
       \<and> similarities yoga_then_stop [''of''] m X = [[0, 0]]
       \<and> idxs = [0]
       \<and> idxs ! 0 = Min {j. j < length (programs yoga_then_stop)
                           \<and> similarities yoga_then_stop [''of''] m X ! 0 ! j
                               = Max (set (similarities yoga_then_stop [''of''] m X ! 0))})"
proof -
  have g: "generate_recommendations yoga_then_stop [''of''] 5
         = Inr ([MatchingPrograms [''of''] [the_of]], [yoga])"
    by (simp add: recommend_yoga_then_stop slice_to_def)
  have c: "category_matches yoga_then_stop [''of''] \<noteq> []"
    by (simp add: matches_yoga_then_stop)
  from selected_index_is_smallest_maximum[OF g c] obtain m X idxs where
    ft: "fit_transform (stop_words yoga_then_stop) (map description (programs yoga_then_stop))
           = Inr (m, X)"
    and ax: "argmax_axis1 (similarities yoga_then_stop [''of''] m X) = Inr idxs"
    and sel: "\<forall>k<length (category_matches yoga_then_stop [''of'']).
               idxs ! k = Min {j. j < length (programs yoga_then_stop)
                                  \<and> similarities yoga_then_stop [''of''] m X ! k ! j
                                      = Max (set (similarities yoga_then_stop [''of''] m X ! k))}"
    by blast
  from ft have fx: "fitted yoga_then_stop = Inr (m, X)" by (simp add: fitted_def)
  have S: "similarities yoga_then_stop [''of''] m X = [[0, 0]]"
    using rows_yoga_then_stop fx by (simp add: similarity_rows_def)
  have "similar_program_indices yoga_then_stop [''of''] = Inr idxs"
    using fx ax by (simp add: similar_program_indices_def similarity_rows_def)
  then have ix: "idxs = [0]" using indices_yoga_then_stop by simp
  have "idxs ! 0 = Min {j. j < length (programs yoga_then_stop)
                           \<and> similarities yoga_then_stop [''of''] m X ! 0 ! j
                               = Max (set (similarities yoga_then_stop [''of''] m X ! 0))}"
    using sel by (simp add: matches_yoga_then_stop)
  with g c ft ax S ix show ?thesis by blast
qed



section \<open>Duplicate categories\<close>

lemma category_in_set_cong: "set cats = set cats' \<Longrightarrow> category_in cats = category_in cats'"
  by (auto simp: category_in_def fun_eq_iff split: option.splits)

lemma returned_set_cong:
  assumes "set cats = set cats'"
  shows "returned (generate_recommendations self cats n)
       = returned (generate_recommendations self cats' n)"
proof -
  have ci: "category_in cats = category_in cats'" by (rule category_in_set_cong[OF assms])
  then have cm: "category_matches self cats = category_matches self cats'"
    by (simp add: category_matches_def)
  then have "similarities self cats m X = similarities self cats' m X" for m X
    by (simp add: similarities_def)
  then have "similarity_rows self cats = similarity_rows self cats'"
    by (auto simp: similarity_rows_def split: sum.splits)
  then have sp: "similar_program_indices self cats = similar_program_indices self cats'"
    by (simp add: similar_program_indices_def)
  show ?thesis
    by (simp add: generate_recommendations_cases returned_def cm sp split: sum.splits)
qed

text \<open>
  C9: a list of desired categories with duplicates and the same list with the
  duplicates removed give the same returned list, or the same error. (The line that
  echoes the categories prints the list as it was given.)
\<close>

theorem duplicate_categories_same_result:
  "returned (generate_recommendations self (remdups cats) n)
 = returned (generate_recommendations self cats n)"
  by (rule returned_set_cong) simp

theorem duplicate_categories_same_result_witness:
  "remdups [''fitness'', ''fitness''] = [''fitness'']
   \<and> returned (generate_recommendations scenario_A [''fitness'', ''fitness''] 2)
     = Inr [yoga, pilates]"
proof -
  have d: "remdups [''fitness'', ''fitness''] = [''fitness'']" by simp
  have "returned (generate_recommendations scenario_A [''fitness''] 2) = Inr [yoga, pilates]"
    by (simp add: recommend_scenario_A returned_def slice_to_def)
  with duplicate_categories_same_result[of scenario_A "[''fitness'', ''fitness'']" 2] d
  show ?thesis by simp
qed

section \<open>Where the returned records come from\<close>

text \<open>
  C10: every returned record is the catalog record at some position; and a returned
  record need not be a candidate: for the catalog \<open>[yoga, the_of]\<close> and the desired
  category \<open>of\<close> the result is \<open>[yoga]\<close>, of category \<open>fitness\<close>.
\<close>

theorem results_are_catalog_records:
  "(generate_recommendations self cats n = Inr (out, res) \<longrightarrow>
      (\<forall>r\<in>set res. \<exists>i<length (programs self). r = programs self ! i))
   \<and> (\<exists>self' cats' n' out' res' r.
        generate_recommendations self' cats' n' = Inr (out', res')
        \<and> r \<in> set res' \<and> \<not> category_in cats' r)"
proof (intro conjI impI ballI)
  fix r
  assume g: "generate_recommendations self cats n = Inr (out, res)" and r: "r \<in> set res"
  from recommend_Inr_cases[OF g] r obtain idxs where
    sp: "similar_program_indices self cats = Inr idxs"
    and res: "res = map (\<lambda>i. programs self ! i) (slice_to idxs n)"
    by auto
  from r res obtain i where i: "i \<in> set (slice_to idxs n)" "r = programs self ! i" by auto
  from i(1) slice_to_set[of idxs n] have "i \<in> set idxs" by blast
  then have "i < length (programs self)" by (rule similar_program_indices_bound[OF sp])
  with i(2) show "\<exists>i<length (programs self). r = programs self ! i" by blast
next
  have g: "generate_recommendations yoga_then_stop [''of''] 5 =
           Inr ([MatchingPrograms [''of''] [the_of]], [yoga])"
    by (simp add: recommend_yoga_then_stop slice_to_def)
  have "\<not> category_in [''of''] yoga" by code_simp
  with g show "\<exists>self' cats' n' out' res' r.
        generate_recommendations self' cats' n' = Inr (out', res')
        \<and> r \<in> set res' \<and> \<not> category_in cats' r"
    by (intro exI[of _ yoga_then_stop] exI[of _ "[''of'']"] exI[of _ 5]
        exI[of _ "[MatchingPrograms [''of''] [the_of]]"] exI[of _ "[yoga]"] exI[of _ yoga]) simp
qed

theorem results_are_catalog_records_witness:
  "generate_recommendations yoga_then_stop [''of''] 5 =
     Inr ([MatchingPrograms [''of''] [the_of]], [yoga])
   \<and> (\<exists>i<length (programs yoga_then_stop). yoga = programs yoga_then_stop ! i)
   \<and> \<not> category_in [''of''] yoga"
proof -
  have g: "generate_recommendations yoga_then_stop [''of''] 5 =
           Inr ([MatchingPrograms [''of''] [the_of]], [yoga])"
    by (simp add: recommend_yoga_then_stop slice_to_def)
  have c: "\<not> category_in [''of''] yoga" by code_simp
  from results_are_catalog_records[of yoga_then_stop "[''of'']" 5
      "[MatchingPrograms [''of''] [the_of]]" "[yoga]"] g
  have "\<forall>r\<in>set [yoga]. \<exists>i<length (programs yoga_then_stop). r = programs yoga_then_stop ! i"
    by blast
  then have "\<exists>i<length (programs yoga_then_stop). yoga = programs yoga_then_stop ! i"
    by simp
  with g c show ?thesis by blast
qed

section \<open>Self-similarity\<close>

text \<open>
  C5, as stated, fails. In the catalog \<open>[yoga, the_of]\<close> the only candidate for the
  category \<open>of\<close> is the record at position 1; its text is not the text of the other
  record, yet the index chosen for it is 0, and the method returns \<open>yoga\<close>: its text
  holds stop words only, so its row is zero, every cosine is zero, and \<open>argmax\<close> takes
  the first position. In the catalog \<open>[class_yoga, yoga_class]\<close> the two texts differ
  but hold the same words; the rows are the same, and both candidates are matched to
  position 0.
\<close>

theorem C5_counterexample:
  "candidate_indices yoga_then_stop [''of''] = [1]
   \<and> length (programs yoga_then_stop) = 2
   \<and> description (programs yoga_then_stop ! 0) \<noteq> description (programs yoga_then_stop ! 1)
   \<and> similar_program_indices yoga_then_stop [''of''] = Inr [0]
   \<and> generate_recommendations yoga_then_stop [''of''] 5
       = Inr ([MatchingPrograms [''of''] [the_of]], [yoga])
   \<and> candidate_indices same_words [''fitness''] = [0, 1]
   \<and> length (programs same_words) = 2
   \<and> description (programs same_words ! 0) \<noteq> description (programs same_words ! 1)
   \<and> similar_program_indices same_words [''fitness''] = Inr [0, 0]
   \<and> generate_recommendations same_words [''fitness''] 5
       = Inr ([MatchingPrograms [''fitness''] [class_yoga, yoga_class]],
              [class_yoga, class_yoga])"
proof -
  have "description (programs yoga_then_stop ! 0) \<noteq> description (programs yoga_then_stop ! 1)"
    by code_simp
  moreover have "generate_recommendations yoga_then_stop [''of''] 5
       = Inr ([MatchingPrograms [''of''] [the_of]], [yoga])"
    by (simp add: recommend_yoga_then_stop slice_to_def)
  moreover have "generate_recommendations same_words [''fitness''] 5
       = Inr ([MatchingPrograms [''fitness''] [class_yoga, yoga_class]],
              [class_yoga, class_yoga])"
    by (simp add: recommend_same_words slice_to_def)
  ultimately show ?thesis
    using candidates_yoga_then_stop indices_yoga_then_stop candidates_same_words
      indices_same_words texts_same_words
    by (simp add: programs_yoga_then_stop programs_same_words)
qed

text \<open>
  C5, amended. The index chosen for a candidate is the candidate's own position exactly
  when its cosine with itself is greater than its cosine with every earlier catalog
  record and not less than its cosine with every later one. A unique text does not
  ensure that: a candidate whose text has no term left after the analysis has cosine 0
  with every record and is matched to position 0; a candidate with the same term counts
  as an earlier record has the same cosine with that record as with itself and is not
  matched to itself. A candidate that has a term and shares no term with any other
  catalog record is matched to itself.
\<close>

theorem candidate_self_match:
  assumes "generate_recommendations self cats n = Inr (out, res)"
    and "category_matches self cats \<noteq> []"
  shows "\<exists>m X idxs.
           fit_transform (stop_words self) (map description (programs self)) = Inr (m, X)
         \<and> argmax_axis1 (similarities self cats m X) = Inr idxs
         \<and> length idxs = length (candidate_indices self cats)
         \<and> res = map (\<lambda>i. programs self ! i) (slice_to idxs n)
         \<and> (\<forall>k<length (candidate_indices self cats).
               category_matches self cats ! k = programs self ! (candidate_indices self cats ! k)
             \<and> (idxs ! k = candidate_indices self cats ! k \<longleftrightarrow>
                  (\<forall>j<candidate_indices self cats ! k.
                      similarities self cats m X ! k ! j
                    < similarities self cats m X ! k ! (candidate_indices self cats ! k))
                  \<and> (\<forall>j<length (programs self).
                      similarities self cats m X ! k ! j
                    \<le> similarities self cats m X ! k ! (candidate_indices self cats ! k)))
             \<and> (analyze (stop_words self)
                   (description (programs self ! (candidate_indices self cats ! k))) = []
                 \<longrightarrow> (\<forall>j<length (programs self). similarities self cats m X ! k ! j = 0)
                     \<and> idxs ! k = 0)
             \<and> (\<forall>j<candidate_indices self cats ! k.
                   (\<forall>t. count_list (analyze (stop_words self)
                                      (description (programs self ! j))) t
                       = count_list (analyze (stop_words self)
                           (description (programs self ! (candidate_indices self cats ! k)))) t)
                   \<longrightarrow> similarities self cats m X ! k ! j
                         = similarities self cats m X ! k ! (candidate_indices self cats ! k)
                       \<and> idxs ! k \<noteq> candidate_indices self cats ! k)
             \<and> (analyze (stop_words self)
                   (description (programs self ! (candidate_indices self cats ! k))) \<noteq> []
                 \<and> (\<forall>j<length (programs self). j \<noteq> candidate_indices self cats ! k \<longrightarrow>
                       set (analyze (stop_words self) (description (programs self ! j)))
                     \<inter> set (analyze (stop_words self)
                          (description (programs self ! (candidate_indices self cats ! k)))) = {})
                 \<longrightarrow> idxs ! k = candidate_indices self cats ! k))"
proof -
  from assms obtain m X idxs where
    ft: "fit_transform (stop_words self) (map description (programs self)) = Inr (m, X)"
    and ax: "argmax_axis1 (similarities self cats m X) = Inr idxs"
    and len: "length idxs = length (category_matches self cats)"
    and res: "res = map (\<lambda>i. programs self ! i) (slice_to idxs n)"
    and fx: "fitted self = Inr (m, X)"
    and sp: "similar_program_indices self cats = Inr idxs"
    by (rule recommend_selects)
  from len have len': "length idxs = length (candidate_indices self cats)"
    by (simp add: length_candidate_indices)
  have each: "\<forall>k<length (candidate_indices self cats).
               category_matches self cats ! k = programs self ! (candidate_indices self cats ! k)
             \<and> (idxs ! k = candidate_indices self cats ! k \<longleftrightarrow>
                  (\<forall>j<candidate_indices self cats ! k.
                      similarities self cats m X ! k ! j
                    < similarities self cats m X ! k ! (candidate_indices self cats ! k))
                  \<and> (\<forall>j<length (programs self).
                      similarities self cats m X ! k ! j
                    \<le> similarities self cats m X ! k ! (candidate_indices self cats ! k)))
             \<and> (analyze (stop_words self)
                   (description (programs self ! (candidate_indices self cats ! k))) = []
                 \<longrightarrow> (\<forall>j<length (programs self). similarities self cats m X ! k ! j = 0)
                     \<and> idxs ! k = 0)
             \<and> (\<forall>j<candidate_indices self cats ! k.
                   (\<forall>t. count_list (analyze (stop_words self)
                                      (description (programs self ! j))) t
                       = count_list (analyze (stop_words self)
                           (description (programs self ! (candidate_indices self cats ! k)))) t)
                   \<longrightarrow> similarities self cats m X ! k ! j
                         = similarities self cats m X ! k ! (candidate_indices self cats ! k)
                       \<and> idxs ! k \<noteq> candidate_indices self cats ! k)
             \<and> (analyze (stop_words self)
                   (description (programs self ! (candidate_indices self cats ! k))) \<noteq> []
                 \<and> (\<forall>j<length (programs self). j \<noteq> candidate_indices self cats ! k \<longrightarrow>
                       set (analyze (stop_words self) (description (programs self ! j)))
                     \<inter> set (analyze (stop_words self)
                          (description (programs self ! (candidate_indices self cats ! k)))) = {})
                 \<longrightarrow> idxs ! k = candidate_indices self cats ! k)"
  proof (intro allI impI conjI)
    fix k assume k: "k < length (candidate_indices self cats)"
    show "category_matches self cats ! k = programs self ! (candidate_indices self cats ! k)"
      by (rule candidate_is_catalog_record(1)[OF k])
    show "idxs ! k = candidate_indices self cats ! k \<longleftrightarrow>
                  (\<forall>j<candidate_indices self cats ! k.
                      similarities self cats m X ! k ! j
                    < similarities self cats m X ! k ! (candidate_indices self cats ! k))
                  \<and> (\<forall>j<length (programs self).
                      similarities self cats m X ! k ! j
                    \<le> similarities self cats m X ! k ! (candidate_indices self cats ! k))"
      by (rule own_index_iff_order[OF fx sp k])
  next
    fix k j
    assume k: "k < length (candidate_indices self cats)"
      and z: "analyze (stop_words self)
                (description (programs self ! (candidate_indices self cats ! k))) = []"
      and j: "j < length (programs self)"
    from no_token_candidate(1)[OF fx sp k z] j
    show "similarities self cats m X ! k ! j = 0" by blast
  next
    fix k
    assume k: "k < length (candidate_indices self cats)"
      and z: "analyze (stop_words self)
                (description (programs self ! (candidate_indices self cats ! k))) = []"
    show "idxs ! k = 0" by (rule no_token_candidate(2)[OF fx sp k z])
  next
    fix k j
    assume k: "k < length (candidate_indices self cats)"
      and j: "j < candidate_indices self cats ! k"
      and same: "\<forall>t. count_list (analyze (stop_words self)
                                      (description (programs self ! j))) t
                       = count_list (analyze (stop_words self)
                           (description (programs self ! (candidate_indices self cats ! k)))) t"
    show "similarities self cats m X ! k ! j
        = similarities self cats m X ! k ! (candidate_indices self cats ! k)"
      by (rule repeated_counts_candidate(1)[OF fx sp k j same])
    show "idxs ! k \<noteq> candidate_indices self cats ! k"
      by (rule repeated_counts_candidate(2)[OF fx sp k j same])
  next
    fix k
    assume k: "k < length (candidate_indices self cats)"
      and iso: "analyze (stop_words self)
                   (description (programs self ! (candidate_indices self cats ! k))) \<noteq> []
                 \<and> (\<forall>j<length (programs self). j \<noteq> candidate_indices self cats ! k \<longrightarrow>
                       set (analyze (stop_words self) (description (programs self ! j)))
                     \<inter> set (analyze (stop_words self)
                          (description (programs self ! (candidate_indices self cats ! k)))) = {})"
    from iso show "idxs ! k = candidate_indices self cats ! k"
      by (intro isolated_candidate[OF fx sp k]) blast+
  qed
  from ft ax len' res each show ?thesis by blast
qed

theorem candidate_self_match_witness:
  "(\<exists>m X idxs.
      fit_transform (stop_words chess_then_yoga) (map description (programs chess_then_yoga))
        = Inr (m, X)
    \<and> argmax_axis1 (similarities chess_then_yoga [''fitness''] m X) = Inr idxs
    \<and> candidate_indices chess_then_yoga [''fitness''] = [1]
    \<and> analyze (stop_words chess_then_yoga) (description (programs chess_then_yoga ! 1)) \<noteq> []
    \<and> set (analyze (stop_words chess_then_yoga) (description (programs chess_then_yoga ! 0)))
      \<inter> set (analyze (stop_words chess_then_yoga) (description (programs chess_then_yoga ! 1)))
      = {}
    \<and> idxs ! 0 = 1)
   \<and> (\<exists>m X idxs.
      fit_transform (stop_words yoga_then_stop) (map description (programs yoga_then_stop))
        = Inr (m, X)
    \<and> argmax_axis1 (similarities yoga_then_stop [''of''] m X) = Inr idxs
    \<and> candidate_indices yoga_then_stop [''of''] = [1]
    \<and> analyze (stop_words yoga_then_stop) (description (programs yoga_then_stop ! 1)) = []
    \<and> idxs ! 0 = 0)
   \<and> (\<exists>m X idxs.
      fit_transform (stop_words same_words) (map description (programs same_words))
        = Inr (m, X)
    \<and> argmax_axis1 (similarities same_words [''fitness''] m X) = Inr idxs
    \<and> candidate_indices same_words [''fitness''] = [0, 1]
    \<and> idxs ! 1 \<noteq> 1)"
proof -
  have g1: "generate_recommendations chess_then_yoga [''fitness''] 5
         = Inr ([MatchingPrograms [''fitness''] [yoga]], [yoga])"
    by (simp add: recommend_chess_then_yoga slice_to_def)
  have c1: "category_matches chess_then_yoga [''fitness''] \<noteq> []"
    by (simp add: matches_chess_then_yoga)
  have a1: "analyze (stop_words chess_then_yoga) (description (programs chess_then_yoga ! 1)) \<noteq> []"
    by (simp add: programs_chess_then_yoga stop_words_chess_then_yoga analyze_yoga)
  have d1: "set (analyze (stop_words chess_then_yoga) (description (programs chess_then_yoga ! 0)))
      \<inter> set (analyze (stop_words chess_then_yoga) (description (programs chess_then_yoga ! 1)))
      = {}"
    using disjoint_chess_yoga
    by (simp add: programs_chess_then_yoga stop_words_chess_then_yoga)
  from candidate_self_match[OF g1 c1] obtain m X idxs where
    ft: "fit_transform (stop_words chess_then_yoga) (map description (programs chess_then_yoga))
        = Inr (m, X)"
    and ax: "argmax_axis1 (similarities chess_then_yoga [''fitness''] m X) = Inr idxs"
    and iso: "\<forall>k<length (candidate_indices chess_then_yoga [''fitness'']).
       (analyze (stop_words chess_then_yoga)
          (description (programs chess_then_yoga
             ! (candidate_indices chess_then_yoga [''fitness''] ! k))) \<noteq> []
        \<and> (\<forall>j<length (programs chess_then_yoga).
              j \<noteq> candidate_indices chess_then_yoga [''fitness''] ! k \<longrightarrow>
              set (analyze (stop_words chess_then_yoga) (description (programs chess_then_yoga ! j)))
            \<inter> set (analyze (stop_words chess_then_yoga)
                 (description (programs chess_then_yoga
                    ! (candidate_indices chess_then_yoga [''fitness''] ! k)))) = {})
        \<longrightarrow> idxs ! k = candidate_indices chess_then_yoga [''fitness''] ! k)"
    by blast
  have "\<forall>j<length (programs chess_then_yoga). j \<noteq> 1 \<longrightarrow>
          set (analyze (stop_words chess_then_yoga) (description (programs chess_then_yoga ! j)))
        \<inter> set (analyze (stop_words chess_then_yoga) (description (programs chess_then_yoga ! 1)))
        = {}"
    using d1 by (simp add: programs_chess_then_yoga less_Suc_eq)
  with iso a1 have "idxs ! 0 = 1" by (simp add: candidates_chess_then_yoga)
  with ft ax candidates_chess_then_yoga a1 d1 have 1:
    "\<exists>m X idxs.
      fit_transform (stop_words chess_then_yoga) (map description (programs chess_then_yoga))
        = Inr (m, X)
    \<and> argmax_axis1 (similarities chess_then_yoga [''fitness''] m X) = Inr idxs
    \<and> candidate_indices chess_then_yoga [''fitness''] = [1]
    \<and> analyze (stop_words chess_then_yoga) (description (programs chess_then_yoga ! 1)) \<noteq> []
    \<and> set (analyze (stop_words chess_then_yoga) (description (programs chess_then_yoga ! 0)))
      \<inter> set (analyze (stop_words chess_then_yoga) (description (programs chess_then_yoga ! 1)))
      = {}
    \<and> idxs ! 0 = 1"
    by blast
  have g2: "generate_recommendations yoga_then_stop [''of''] 5
         = Inr ([MatchingPrograms [''of''] [the_of]], [yoga])"
    by (simp add: recommend_yoga_then_stop slice_to_def)
  have c2: "category_matches yoga_then_stop [''of''] \<noteq> []"
    by (simp add: matches_yoga_then_stop)
  have a2: "analyze (stop_words yoga_then_stop) (description (programs yoga_then_stop ! 1)) = []"
    by (simp add: programs_yoga_then_stop stop_words_yoga_then_stop analyze_the_of)
  from candidate_self_match[OF g2 c2] obtain m2 X2 idxs2 where
    ft2: "fit_transform (stop_words yoga_then_stop) (map description (programs yoga_then_stop))
        = Inr (m2, X2)"
    and ax2: "argmax_axis1 (similarities yoga_then_stop [''of''] m2 X2) = Inr idxs2"
    and zero: "\<forall>k<length (candidate_indices yoga_then_stop [''of'']).
       (analyze (stop_words yoga_then_stop)
          (description (programs yoga_then_stop
             ! (candidate_indices yoga_then_stop [''of''] ! k))) = []
        \<longrightarrow> idxs2 ! k = 0)"
    by blast
  from zero a2 have "idxs2 ! 0 = 0" by (simp add: candidates_yoga_then_stop)
  with ft2 ax2 candidates_yoga_then_stop a2 have 2:
    "\<exists>m X idxs.
      fit_transform (stop_words yoga_then_stop) (map description (programs yoga_then_stop))
        = Inr (m, X)
    \<and> argmax_axis1 (similarities yoga_then_stop [''of''] m X) = Inr idxs
    \<and> candidate_indices yoga_then_stop [''of''] = [1]
    \<and> analyze (stop_words yoga_then_stop) (description (programs yoga_then_stop ! 1)) = []
    \<and> idxs ! 0 = 0"
    by blast
  have g3: "generate_recommendations same_words [''fitness''] 5
       = Inr ([MatchingPrograms [''fitness''] [class_yoga, yoga_class]],
              [class_yoga, class_yoga])"
    by (simp add: recommend_same_words slice_to_def)
  have c3: "category_matches same_words [''fitness''] \<noteq> []"
    by (simp add: matches_same_words)
  from candidate_self_match[OF g3 c3] obtain m3 X3 idxs3 where
    ft3: "fit_transform (stop_words same_words) (map description (programs same_words))
        = Inr (m3, X3)"
    and ax3: "argmax_axis1 (similarities same_words [''fitness''] m3 X3) = Inr idxs3"
    and rep: "\<forall>k<length (candidate_indices same_words [''fitness'']).
       (\<forall>j<candidate_indices same_words [''fitness''] ! k.
           (\<forall>t. count_list (analyze (stop_words same_words)
                              (description (programs same_words ! j))) t
               = count_list (analyze (stop_words same_words)
                   (description (programs same_words
                      ! (candidate_indices same_words [''fitness''] ! k)))) t)
           \<longrightarrow> idxs3 ! k \<noteq> candidate_indices same_words [''fitness''] ! k)"
    by blast
  have "\<forall>t. count_list (analyze (stop_words same_words)
                              (description (programs same_words ! 0))) t
               = count_list (analyze (stop_words same_words)
                   (description (programs same_words ! 1))) t"
    using same_counts_same_words
    by (simp add: programs_same_words stop_words_same_words)
  moreover have "1 < length (candidate_indices same_words [''fitness''])"
    and "0 < candidate_indices same_words [''fitness''] ! 1"
    and "candidate_indices same_words [''fitness''] ! 1 = 1"
    by (simp_all add: candidates_same_words)
  ultimately have "idxs3 ! 1 \<noteq> 1" using rep by metis
  with ft3 ax3 candidates_same_words have 3:
    "\<exists>m X idxs.
      fit_transform (stop_words same_words) (map description (programs same_words))
        = Inr (m, X)
    \<and> argmax_axis1 (similarities same_words [''fitness''] m X) = Inr idxs
    \<and> candidate_indices same_words [''fitness''] = [0, 1]
    \<and> idxs ! 1 \<noteq> 1"
    by blast
  from 1 2 3 show ?thesis by blast
qed

section \<open>The printer of main\<close>

lemma format_program_Inl_iff:
  "(\<exists>e. format_program p = Inl e) \<longleftrightarrow> name p = None \<or> category p = None \<or> venue p = None"
  by (auto simp: format_program_def subscript_def split: option.splits)

lemma format_program_error:
  "format_program p = Inl e \<longleftrightarrow>
     (name p = None \<and> e = KeyError ''name'')
     \<or> (name p \<noteq> None \<and> category p = None \<and> e = KeyError ''category'')
     \<or> (name p \<noteq> None \<and> category p \<noteq> None \<and> venue p = None \<and> e = KeyError ''venue'')"
  by (auto simp: format_program_def subscript_def split: option.splits)

lemma format_program_Inr_iff:
  "(\<exists>line. format_program p = Inr line) \<longleftrightarrow>
     name p \<noteq> None \<and> category p \<noteq> None \<and> venue p \<noteq> None"
  by (auto simp: format_program_def subscript_def split: option.splits)

lemma print_programs_error_iff:
  "snd (print_programs out ps) \<noteq> None \<longleftrightarrow> (\<exists>p\<in>set ps. \<exists>e. format_program p = Inl e)"
proof (induction ps arbitrary: out)
  case Nil
  then show ?case by simp
next
  case (Cons p ps)
  show ?case
  proof (cases "format_program p")
    case (Inl e)
    then show ?thesis by simp
  next
    case (Inr line)
    then show ?thesis using Cons.IH[of "out @ [line]"] by simp
  qed
qed

text \<open>The loop stops at the first record that cannot be formatted, with that record's error.\<close>

lemma print_programs_first_error:
  "snd (print_programs out ps) = Some e \<longleftrightarrow>
     (\<exists>pre p post. ps = pre @ p # post
        \<and> (\<forall>q\<in>set pre. \<exists>line. format_program q = Inr line)
        \<and> format_program p = Inl e)"
proof (induction ps arbitrary: out)
  case Nil
  then show ?case by simp
next
  case (Cons a ps)
  show ?case
  proof (cases "format_program a")
    case (Inl e')
    show ?thesis
    proof
      assume "snd (print_programs out (a # ps)) = Some e"
      with Inl have "e' = e" by simp
      with Inl have "a # ps = [] @ a # ps \<and> (\<forall>q\<in>set []. \<exists>line. format_program q = Inr line)
                     \<and> format_program a = Inl e"
        by simp
      then show "\<exists>pre p post. a # ps = pre @ p # post
        \<and> (\<forall>q\<in>set pre. \<exists>line. format_program q = Inr line) \<and> format_program p = Inl e"
        by blast
    next
      assume "\<exists>pre p post. a # ps = pre @ p # post
        \<and> (\<forall>q\<in>set pre. \<exists>line. format_program q = Inr line) \<and> format_program p = Inl e"
      then obtain pre p post where s: "a # ps = pre @ p # post"
        and ok: "\<forall>q\<in>set pre. \<exists>line. format_program q = Inr line"
        and bad: "format_program p = Inl e"
        by blast
      have "pre = []"
      proof (cases pre)
        case Nil
        then show ?thesis .
      next
        case (Cons b pre')
        with s have "b = a" by simp
        with ok Cons Inl show ?thesis by auto
      qed
      with s bad Inl have "e' = e" by simp
      with Inl show "snd (print_programs out (a # ps)) = Some e" by simp
    qed
  next
    case (Inr line)
    have step: "snd (print_programs out (a # ps)) = snd (print_programs (out @ [line]) ps)"
      using Inr by simp
    show ?thesis
    proof
      assume "snd (print_programs out (a # ps)) = Some e"
      with step Cons.IH[of "out @ [line]"] obtain pre p post where
        "ps = pre @ p # post" "\<forall>q\<in>set pre. \<exists>line. format_program q = Inr line"
        "format_program p = Inl e"
        by auto
      with Inr have "a # ps = (a # pre) @ p # post
        \<and> (\<forall>q\<in>set (a # pre). \<exists>line. format_program q = Inr line) \<and> format_program p = Inl e"
        by simp
      then show "\<exists>pre p post. a # ps = pre @ p # post
        \<and> (\<forall>q\<in>set pre. \<exists>line. format_program q = Inr line) \<and> format_program p = Inl e"
        by blast
    next
      assume "\<exists>pre p post. a # ps = pre @ p # post
        \<and> (\<forall>q\<in>set pre. \<exists>line. format_program q = Inr line) \<and> format_program p = Inl e"
      then obtain pre p post where s: "a # ps = pre @ p # post"
        and ok: "\<forall>q\<in>set pre. \<exists>line. format_program q = Inr line"
        and bad: "format_program p = Inl e"
        by blast
      from s bad Inr obtain pre' where pre: "pre = a # pre'"
        by (cases pre) auto
      with s ok bad have "ps = pre' @ p # post
        \<and> (\<forall>q\<in>set pre'. \<exists>line. format_program q = Inr line) \<and> format_program p = Inl e"
        by simp
      then have "snd (print_programs (out @ [line]) ps) = Some e"
        using Cons.IH[of "out @ [line]"] by blast
      with step show "snd (print_programs out (a # ps)) = Some e" by simp
    qed
  qed
qed

text \<open>
  C2, as stated, fails: a recommended record with a venue but without a name stops the
  printer with \<open>KeyError 'name'\<close> before anything is printed.
\<close>

theorem C2_counterexample:
  "output_recommendations
     [\<lparr>name = None, category = Some ''fitness'', notes' = Some ''morning class'',
       venue = Some ''Gym A''\<rparr>] = ([], Some (KeyError ''name''))"
  by (simp add: output_recommendations_def format_program_def subscript_def)

text \<open>
  C2, amended: printing the recommended records raises a lookup error exactly when one of
  them lacks \<open>name\<close>, \<open>category\<close> or \<open>venue\<close>, the three fields the printer
  subscripts. The error is the \<open>KeyError\<close> of the first such record, for the first key
  it lacks in the order \<open>name\<close>, \<open>category\<close>, \<open>venue\<close>. An absent \<open>notes\<close> never
  raises at output time.
\<close>

theorem output_raises_KeyError_of_first_missing_field:
  "(snd (output_recommendations recommended_programs) = Some e \<longleftrightarrow>
      (\<exists>pre p post. recommended_programs = pre @ p # post
         \<and> (\<forall>q\<in>set pre. name q \<noteq> None \<and> category q \<noteq> None \<and> venue q \<noteq> None)
         \<and> ((name p = None \<and> e = KeyError ''name'')
            \<or> (name p \<noteq> None \<and> category p = None \<and> e = KeyError ''category'')
            \<or> (name p \<noteq> None \<and> category p \<noteq> None \<and> venue p = None
                \<and> e = KeyError ''venue''))))
   \<and> (snd (output_recommendations recommended_programs) \<noteq> None \<longleftrightarrow>
      (\<exists>p\<in>set recommended_programs. name p = None \<or> category p = None \<or> venue p = None))"
proof (cases "recommended_programs = []")
  case True
  then show ?thesis by (simp add: output_recommendations_def)
next
  case False
  then have out: "snd (output_recommendations recommended_programs)
           = snd (print_programs [] recommended_programs)"
    by (simp add: output_recommendations_def)
  have 1: "snd (output_recommendations recommended_programs) = Some e \<longleftrightarrow>
      (\<exists>pre p post. recommended_programs = pre @ p # post
         \<and> (\<forall>q\<in>set pre. name q \<noteq> None \<and> category q \<noteq> None \<and> venue q \<noteq> None)
         \<and> ((name p = None \<and> e = KeyError ''name'')
            \<or> (name p \<noteq> None \<and> category p = None \<and> e = KeyError ''category'')
            \<or> (name p \<noteq> None \<and> category p \<noteq> None \<and> venue p = None
                \<and> e = KeyError ''venue'')))"
    unfolding out print_programs_first_error format_program_Inr_iff format_program_error ..
  have 2: "snd (output_recommendations recommended_programs) \<noteq> None \<longleftrightarrow>
      (\<exists>p\<in>set recommended_programs. name p = None \<or> category p = None \<or> venue p = None)"
    unfolding out print_programs_error_iff format_program_Inl_iff ..
  from 1 2 show ?thesis by (rule conjI)
qed

theorem output_raises_KeyError_of_first_missing_field_witness:
  "snd (output_recommendations [yoga, pilates\<lparr>venue := None\<rparr>]) = Some (KeyError ''venue'')
   \<and> snd (output_recommendations [yoga\<lparr>name := None, venue := None\<rparr>]) = Some (KeyError ''name'')
   \<and> snd (output_recommendations [yoga\<lparr>category := None\<rparr>]) = Some (KeyError ''category'')
   \<and> snd (output_recommendations [yoga\<lparr>notes' := None\<rparr>]) = None"
proof -
  have "\<exists>pre p post. [yoga, pilates\<lparr>venue := None\<rparr>] = pre @ p # post
         \<and> (\<forall>q\<in>set pre. name q \<noteq> None \<and> category q \<noteq> None \<and> venue q \<noteq> None)
         \<and> ((name p = None \<and> KeyError ''venue'' = KeyError ''name'')
            \<or> (name p \<noteq> None \<and> category p = None \<and> KeyError ''venue'' = KeyError ''category'')
            \<or> (name p \<noteq> None \<and> category p \<noteq> None \<and> venue p = None
                \<and> KeyError ''venue'' = KeyError ''venue''))"
    by (rule exI[of _ "[yoga]"], rule exI[of _ "pilates\<lparr>venue := None\<rparr>"], rule exI[of _ "[]"])
       (simp add: yoga_def pilates_def)
  with output_raises_KeyError_of_first_missing_field
         [of "[yoga, pilates\<lparr>venue := None\<rparr>]" "KeyError ''venue''"]
  have 1: "snd (output_recommendations [yoga, pilates\<lparr>venue := None\<rparr>]) = Some (KeyError ''venue'')"
    by blast
  have "\<exists>pre p post. [yoga\<lparr>name := None, venue := None\<rparr>] = pre @ p # post
         \<and> (\<forall>q\<in>set pre. name q \<noteq> None \<and> category q \<noteq> None \<and> venue q \<noteq> None)
         \<and> ((name p = None \<and> KeyError ''name'' = KeyError ''name'')
            \<or> (name p \<noteq> None \<and> category p = None \<and> KeyError ''name'' = KeyError ''category'')
            \<or> (name p \<noteq> None \<and> category p \<noteq> None \<and> venue p = None
                \<and> KeyError ''name'' = KeyError ''venue''))"
    by (rule exI[of _ "[]"], rule exI[of _ "yoga\<lparr>name := None, venue := None\<rparr>"],
        rule exI[of _ "[]"]) simp
  with output_raises_KeyError_of_first_missing_field
         [of "[yoga\<lparr>name := None, venue := None\<rparr>]" "KeyError ''name''"]
  have 2: "snd (output_recommendations [yoga\<lparr>name := None, venue := None\<rparr>]) = Some (KeyError ''name'')"
    by blast
  have "\<exists>pre p post. [yoga\<lparr>category := None\<rparr>] = pre @ p # post
         \<and> (\<forall>q\<in>set pre. name q \<noteq> None \<and> category q \<noteq> None \<and> venue q \<noteq> None)
         \<and> ((name p = None \<and> KeyError ''category'' = KeyError ''name'')
            \<or> (name p \<noteq> None \<and> category p = None \<and> KeyError ''category'' = KeyError ''category'')
            \<or> (name p \<noteq> None \<and> category p \<noteq> None \<and> venue p = None
                \<and> KeyError ''category'' = KeyError ''venue''))"
    by (rule exI[of _ "[]"], rule exI[of _ "yoga\<lparr>category := None\<rparr>"], rule exI[of _ "[]"])
       (simp add: yoga_def)
  with output_raises_KeyError_of_first_missing_field
         [of "[yoga\<lparr>category := None\<rparr>]" "KeyError ''category''"]
  have 3: "snd (output_recommendations [yoga\<lparr>category := None\<rparr>]) = Some (KeyError ''category'')"
    by blast
  have "\<not> (\<exists>p\<in>set [yoga\<lparr>notes' := None\<rparr>]. name p = None \<or> category p = None \<or> venue p = None)"
    by (simp add: yoga_def)
  with output_raises_KeyError_of_first_missing_field[of "[yoga\<lparr>notes' := None\<rparr>]" IndexError]
  have 4: "snd (output_recommendations [yoga\<lparr>notes' := None\<rparr>]) = None"
    by blast
  from 1 2 3 4 show ?thesis by blast
qed

end
